theory Spec2Isabelle
  imports Complex_Main "HOL-Library.AList"
begin

section \<open>Manipulator robot: motor control and command protocol\<close>

text \<open>
  A shallow embedding of \<^verbatim>\<open>src/main.py\<close>: the six-joint target/angle state, the
  smoothing step, the serial command encoder, the adjustment operation and the key-repeat
  part of the main loop.

  Numbers. Python mixes \<^verbatim>\<open>int\<close> and \<^verbatim>\<open>float\<close>; the joint positions are modelled as
  exact reals, so the rounding of IEEE doubles in \<^verbatim>\<open>diff * 0.1\<close> is outside the model.
  Tick times (\<^verbatim>\<open>pygame.time.get_ticks()\<close>) are integers.

  Effects. The module-level globals become one record that every operation takes and
  returns. An exception that leaves a function is the \<open>Inl\<close> branch of a sum. The serial
  port is a value that logs every \<^verbatim>\<open>write\<close> call together with its outcome; the outcomes
  of future calls are an explicit schedule. The drawing code, the status line
  \<^verbatim>\<open>action_text\<close> (with its lookup in \<^verbatim>\<open>motor_names\<close>, a list of six like the ranges),
  the \<^verbatim>\<open>print\<close> calls and the reply that \<^verbatim>\<open>send_command\<close> reads after a write only feed
  the display and the terminal and are left out.

  The main loop is driven by the outside world: a run is modelled over a finite list of
  frames, each the tick time and the events that \<^verbatim>\<open>pygame.event.get()\<close> returns in it.
\<close>

subsection \<open>Python lists\<close>

datatype py_error = IndexError | KeyError

definition ebind :: "py_error + 'a \<Rightarrow> ('a \<Rightarrow> py_error + 'b) \<Rightarrow> py_error + 'b" where
  \<comment> \<open>sequencing: an exception of the first step skips the rest\<close>
  "ebind r f = (case r of Inl e \<Rightarrow> Inl e | Inr x \<Rightarrow> f x)"

definition py_index :: "'a list \<Rightarrow> int \<Rightarrow> py_error + nat" where
  \<comment> \<open>subscript resolution: a negative subscript counts from the end\<close>
  "py_index xs i =
     (if 0 \<le> i \<and> i < int (length xs) then Inr (nat i)
      else if i < 0 \<and> 0 \<le> int (length xs) + i then Inr (nat (int (length xs) + i))
      else Inl IndexError)"

definition py_get :: "'a list \<Rightarrow> int \<Rightarrow> py_error + 'a" where
  "py_get xs i = ebind (py_index xs i) (\<lambda>j. Inr (xs ! j))"

definition py_set :: "'a list \<Rightarrow> int \<Rightarrow> 'a \<Rightarrow> py_error + 'a list" where
  "py_set xs i v = ebind (py_index xs i) (\<lambda>j. Inr (xs[j := v]))"

subsection \<open>Configuration and state\<close>

definition motor_ranges :: "(real \<times> real) list" where
  "motor_ranges = [(0, 1023), (512, 634), (104, 924), (512, 956), (0, 1023), (430, 890)]"

definition KEY_REPEAT_DELAY :: int where
  "KEY_REPEAT_DELAY = 50"

definition KEY_REPEAT_INTERVAL :: int where
  "KEY_REPEAT_INTERVAL = 50"

definition FAST_STEP_SIZE :: real where
  "FAST_STEP_SIZE = 3"

text \<open>Key codes of pygame (the ASCII codes of the letters, 27 for Escape).\<close>

definition K_ESCAPE :: int where "K_ESCAPE = 27"
definition K_q :: int where "K_q = 113"
definition K_a :: int where "K_a = 97"
definition K_w :: int where "K_w = 119"
definition K_s :: int where "K_s = 115"
definition K_e :: int where "K_e = 101"
definition K_d :: int where "K_d = 100"
definition K_r :: int where "K_r = 114"
definition K_f :: int where "K_f = 102"
definition K_t :: int where "K_t = 116"
definition K_g :: int where "K_g = 103"
definition K_y :: int where "K_y = 121"
definition K_h :: int where "K_h = 104"

definition key_mapping :: "(int \<times> (int \<times> string)) list" where
  "key_mapping =
     [(K_q, (0, ''increase'')), (K_a, (0, ''decrease'')),
      (K_w, (1, ''increase'')), (K_s, (1, ''decrease'')),
      (K_e, (2, ''increase'')), (K_d, (2, ''decrease'')),
      (K_r, (3, ''increase'')), (K_f, (3, ''decrease'')),
      (K_t, (4, ''increase'')), (K_g, (4, ''decrease'')),
      (K_y, (5, ''increase'')), (K_h, (5, ''decrease''))]"

record serial_port =
  tx_log :: "(string \<times> bool) list"
  faults :: "bool list"

text \<open>
  \<open>tx_log\<close> holds one entry per call of \<^verbatim>\<open>arduino.write\<close>: the bytes handed over and
  whether the call returned (\<open>True\<close>) or raised. \<open>faults\<close> says for the coming calls
  whether they raise; once it is used up, calls succeed.
\<close>

record state =
  motor_angles :: "real list"
  motor_targets :: "real list"
  keys_pressed :: "(int \<times> bool) list"
  last_command_time :: "(int \<times> int) list"
  running :: bool
  arduino :: "serial_port option"

text \<open>
  The two dictionaries are association lists in insertion order (\<open>AList.update\<close>
  overwrites in place or appends, \<open>AList.delete\<close> removes). \<open>arduino\<close> is \<open>None\<close> when
  opening the port failed at startup: the name is then unbound and every use raises
  \<^verbatim>\<open>NameError\<close>.
\<close>

definition initial_state :: "serial_port option \<Rightarrow> state" where
  "initial_state p =
     \<lparr> motor_angles = [512, 512, 512, 956, 800, 430],
       motor_targets = [512, 512, 512, 956, 800, 430],
       keys_pressed = [],
       last_command_time = [],
       running = True,
       arduino = p \<rparr>"

subsection \<open>Smoothing: \<^verbatim>\<open>update_motor_angles\<close>\<close>

definition smooth_joint :: "nat \<Rightarrow> state \<Rightarrow> py_error + state" where
  \<comment> \<open>the body of the \<^verbatim>\<open>for\<close> loop, for one index\<close>
  "smooth_joint i s =
     ebind (py_get (motor_targets s) (int i)) (\<lambda>t.
     ebind (py_get (motor_angles s) (int i)) (\<lambda>a.
       let diff = t - a in
       if \<bar>diff\<bar> > 0.5 then
         ebind (py_set (motor_angles s) (int i) (a + diff * 0.1))
           (\<lambda>as. Inr (s\<lparr>motor_angles := as\<rparr>))
       else
         ebind (py_set (motor_angles s) (int i) t)
           (\<lambda>as. Inr (s\<lparr>motor_angles := as\<rparr>))))"

fun update_motor_angles_loop :: "nat list \<Rightarrow> state \<Rightarrow> py_error + state" where
  "update_motor_angles_loop [] s = Inr s"
| "update_motor_angles_loop (i # is) s =
     ebind (smooth_joint i s) (update_motor_angles_loop is)"

definition update_motor_angles :: "state \<Rightarrow> py_error + state" where
  "update_motor_angles s = update_motor_angles_loop [0..<length (motor_targets s)] s"

subsection \<open>Encoding and sending: \<^verbatim>\<open>send_command\<close>\<close>

definition py_int :: "real \<Rightarrow> int" where
  \<comment> \<open>\<^verbatim>\<open>int(x)\<close>: the fractional part is dropped\<close>
  "py_int x = (if 0 \<le> x then \<lfloor>x\<rfloor> else \<lceil>x\<rceil>)"

fun str_nat :: "nat \<Rightarrow> string" where
  "str_nat n =
     (if n < 10 then [''0123456789'' ! n]
      else str_nat (n div 10) @ [''0123456789'' ! (n mod 10)])"

declare str_nat.simps [simp del]

definition str_int :: "int \<Rightarrow> string" where
  \<comment> \<open>the decimal text that an f-string gives for an \<^verbatim>\<open>int\<close>\<close>
  "str_int i = (if i < 0 then CHR ''-'' # str_nat (nat (- i)) else str_nat (nat i))"

definition command :: "real list \<Rightarrow> py_error + string" where
  \<comment> \<open>the f-string of \<^verbatim>\<open>send_command\<close>: six subscripts, each through \<^verbatim>\<open>int\<close>\<close>
  "command ts =
     ebind (py_get ts 0) (\<lambda>t0.
     ebind (py_get ts 1) (\<lambda>t1.
     ebind (py_get ts 2) (\<lambda>t2.
     ebind (py_get ts 3) (\<lambda>t3.
     ebind (py_get ts 4) (\<lambda>t4.
     ebind (py_get ts 5) (\<lambda>t5.
       Inr (str_int (py_int t0) @ '','' @ str_int (py_int t1) @ '','' @
            str_int (py_int t2) @ '','' @ str_int (py_int t3) @ '','' @
            str_int (py_int t4) @ '','' @ str_int (py_int t5) @ ''*'')))))))"

definition arduino_write :: "string \<Rightarrow> serial_port \<Rightarrow> serial_port" where
  \<comment> \<open>\<^verbatim>\<open>arduino.write(command.encode('utf-8'))\<close>; the frame is ASCII, so the bytes are its characters\<close>
  "arduino_write bytes p =
     (case faults p of
        [] \<Rightarrow> p\<lparr>tx_log := tx_log p @ [(bytes, True)]\<rparr>
      | f # fs \<Rightarrow> p\<lparr>tx_log := tx_log p @ [(bytes, \<not> f)], faults := fs\<rparr>)"

definition send_command :: "state \<Rightarrow> state" where
  \<comment> \<open>the whole body is inside \<^verbatim>\<open>try\<close>/\<^verbatim>\<open>except Exception\<close>: an error in the
      formatting, an unbound \<^verbatim>\<open>arduino\<close> or a failed write ends the body and nothing leaves it\<close>
  "send_command s =
     (case command (motor_targets s) of
        Inl e \<Rightarrow> s
      | Inr cmd \<Rightarrow>
         (case arduino s of
            None \<Rightarrow> s
          | Some p \<Rightarrow> s\<lparr>arduino := Some (arduino_write cmd p)\<rparr>))"

subsection \<open>Adjustment: \<^verbatim>\<open>update_robot_action\<close>\<close>

definition update_robot_action ::
  "string \<Rightarrow> int option \<Rightarrow> string option \<Rightarrow> real \<Rightarrow> state \<Rightarrow> py_error + state" where
  \<comment> \<open>without a joint index only \<^verbatim>\<open>action_text\<close> is set; the subscripts are outside any
      \<^verbatim>\<open>try\<close>, so an \<^verbatim>\<open>IndexError\<close> leaves the function\<close>
  "update_robot_action action motor_index direction step_size s =
     (case motor_index of
        None \<Rightarrow> Inr s
      | Some i \<Rightarrow>
         ebind (py_get motor_ranges i) (\<lambda>(min_val, max_val).
         ebind
           (if direction = Some ''increase'' then
              ebind (py_get (motor_targets s) i) (\<lambda>t.
              ebind (py_set (motor_targets s) i (min max_val (t + step_size))) (\<lambda>ts.
                Inr (s\<lparr>motor_targets := ts\<rparr>)))
            else if direction = Some ''decrease'' then
              ebind (py_get (motor_targets s) i) (\<lambda>t.
              ebind (py_set (motor_targets s) i (max min_val (t - step_size))) (\<lambda>ts.
                Inr (s\<lparr>motor_targets := ts\<rparr>)))
            else Inr s)
           (\<lambda>s'. Inr (send_command s'))))"

text \<open>
  The same function once more, now with the globals as they are when the call ends, also
  when it ends by raising: every subscript that can raise comes before the first assignment
  of its branch, so a raising call leaves the globals as it found them. The first component
  is the exception, if any.
\<close>

definition update_robot_action_exit ::
  "string \<Rightarrow> int option \<Rightarrow> string option \<Rightarrow> real \<Rightarrow> state \<Rightarrow> py_error option \<times> state" where
  "update_robot_action_exit action motor_index direction step_size s =
     (case motor_index of
        None \<Rightarrow> (None, s)
      | Some i \<Rightarrow>
         (case py_get motor_ranges i of
            Inl e \<Rightarrow> (Some e, s)
          | Inr (min_val, max_val) \<Rightarrow>
             if direction = Some ''increase'' then
               (case py_get (motor_targets s) i of
                  Inl e \<Rightarrow> (Some e, s)
                | Inr t \<Rightarrow>
                   (case py_set (motor_targets s) i (min max_val (t + step_size)) of
                      Inl e \<Rightarrow> (Some e, s)
                    | Inr ts \<Rightarrow> (None, send_command (s\<lparr>motor_targets := ts\<rparr>))))
             else if direction = Some ''decrease'' then
               (case py_get (motor_targets s) i of
                  Inl e \<Rightarrow> (Some e, s)
                | Inr t \<Rightarrow>
                   (case py_set (motor_targets s) i (max min_val (t - step_size)) of
                      Inl e \<Rightarrow> (Some e, s)
                    | Inr ts \<Rightarrow> (None, send_command (s\<lparr>motor_targets := ts\<rparr>))))
             else (None, send_command s)))"

subsection \<open>Main loop\<close>

datatype event = QUIT | KEYDOWN int | KEYUP int | OTHER

definition motor_label :: "int \<Rightarrow> string" where
  \<comment> \<open>the first argument of the calls in the loop, \<^verbatim>\<open>f"Motor {motor_index + 1}"\<close>\<close>
  "motor_label motor_index = ''Motor '' @ str_int (motor_index + 1)"

definition fire_time :: "state \<Rightarrow> int \<Rightarrow> int" where
  \<comment> \<open>\<^verbatim>\<open>last_command_time.get(key, 0)\<close>\<close>
  "fire_time s key = (case map_of (last_command_time s) key of None \<Rightarrow> 0 | Some t \<Rightarrow> t)"

definition set_fire_time :: "int \<Rightarrow> int \<Rightarrow> state \<Rightarrow> state" where
  \<comment> \<open>\<^verbatim>\<open>last_command_time[key] = t\<close>\<close>
  "set_fire_time key t s = s\<lparr>last_command_time := AList.update key t (last_command_time s)\<rparr>"

fun handle_event :: "int \<Rightarrow> event \<Rightarrow> state \<Rightarrow> py_error + state" where
  "handle_event current_time QUIT s = Inr (s\<lparr>running := False\<rparr>)"
| "handle_event current_time (KEYDOWN key) s =
     (if key = K_ESCAPE then Inr (s\<lparr>running := False\<rparr>)
      else if map_of key_mapping key \<noteq> None \<and> map_of (keys_pressed s) key = None then
        (case map_of key_mapping key of
           None \<Rightarrow> Inl KeyError
         | Some (motor_index, direction) \<Rightarrow>
            ebind
              (update_robot_action (motor_label motor_index) (Some motor_index)
                 (Some direction) FAST_STEP_SIZE
                 (s\<lparr>keys_pressed := AList.update key True (keys_pressed s)\<rparr>))
              (\<lambda>s'. Inr (set_fire_time key (current_time + KEY_REPEAT_DELAY) s')))
      else Inr s)"
| "handle_event current_time (KEYUP key) s =
     Inr (s\<lparr>keys_pressed :=
               (if map_of (keys_pressed s) key \<noteq> None
                then AList.delete key (keys_pressed s) else keys_pressed s),
             last_command_time :=
               (if map_of (last_command_time s) key \<noteq> None
                then AList.delete key (last_command_time s) else last_command_time s)\<rparr>)"
| "handle_event current_time OTHER s = Inr s"

fun handle_events :: "int \<Rightarrow> event list \<Rightarrow> state \<Rightarrow> py_error + state" where
  "handle_events current_time [] s = Inr s"
| "handle_events current_time (ev # evs) s =
     ebind (handle_event current_time ev s) (handle_events current_time evs)"

text \<open>
  The repeat pass iterates over \<^verbatim>\<open>list(keys_pressed.keys())\<close>, a copy of the held keys
  taken before the pass.
\<close>

fun repeat_keys :: "int \<Rightarrow> int list \<Rightarrow> state \<Rightarrow> py_error + state" where
  "repeat_keys current_time [] s = Inr s"
| "repeat_keys current_time (key # keys) s =
     (case map_of key_mapping key of
        None \<Rightarrow> repeat_keys current_time keys s
      | Some (motor_index, direction) \<Rightarrow>
         if current_time \<ge> fire_time s key then
           ebind
             (update_robot_action (motor_label motor_index) (Some motor_index)
                (Some direction) FAST_STEP_SIZE s)
             (\<lambda>s'. repeat_keys current_time keys
                     (set_fire_time key (current_time + KEY_REPEAT_INTERVAL) s'))
         else repeat_keys current_time keys s)"

definition tick :: "int \<Rightarrow> event list \<Rightarrow> state \<Rightarrow> py_error + state" where
  \<comment> \<open>one pass of the body of \<^verbatim>\<open>while running\<close>, without the drawing\<close>
  "tick current_time evs s =
     ebind (handle_events current_time evs s) (\<lambda>s1.
     ebind (repeat_keys current_time (map fst (keys_pressed s1)) s1) (\<lambda>s2.
       update_motor_angles s2))"

fun main_loop :: "(int \<times> event list) list \<Rightarrow> state \<Rightarrow> py_error + state" where
  "main_loop [] s = Inr s"
| "main_loop ((current_time, evs) # frames) s =
     (if running s then ebind (tick current_time evs s) (main_loop frames) else Inr s)"

subsection \<open>Reading a command frame\<close>

text \<open>
  What the wire format means, in the words of the protocol: fields joined by commas, and
  the integer that a decimal field denotes.
\<close>

definition join_commas :: "string list \<Rightarrow> string" where
  "join_commas ws = (case ws of [] \<Rightarrow> [] | w # rest \<Rightarrow> w @ concat (map (\<lambda>v. CHR '','' # v) rest))"

definition digit_value :: "char \<Rightarrow> nat" where
  "digit_value c = of_char c - 48"

definition decimal_value :: "string \<Rightarrow> nat" where
  "decimal_value ds = foldl (\<lambda>acc c. 10 * acc + digit_value c) 0 ds"

definition read_int :: "string \<Rightarrow> int" where
  "read_int w = (case w of [] \<Rightarrow> 0 | c # ds \<Rightarrow> if c = CHR ''-'' then - int (decimal_value ds) else int (decimal_value w))"

subsection \<open>The smoothing rule and the range invariant\<close>

text \<open>
  The rule of \<^verbatim>\<open>tick_smoothing\<close> for one joint as the specification words it, a run of
  \<open>n\<close> smoothing ticks, and the invariant that every target and every angle lies in the
  range of its joint.
\<close>

definition smoothing_rule :: "real \<Rightarrow> real \<Rightarrow> real" where
  "smoothing_rule target current =
     (if \<bar>target - current\<bar> > 0.5 then current + (target - current) * 0.1 else target)"

fun smooth_ticks :: "nat \<Rightarrow> state \<Rightarrow> py_error + state" where
  "smooth_ticks 0 s = Inr s"
| "smooth_ticks (Suc n) s = ebind (update_motor_angles s) (smooth_ticks n)"

definition in_range :: "real \<times> real \<Rightarrow> real \<Rightarrow> bool" where
  "in_range r v \<longleftrightarrow> fst r \<le> v \<and> v \<le> snd r"

definition within_ranges :: "state \<Rightarrow> bool" where
  "within_ranges s \<longleftrightarrow>
     list_all2 in_range motor_ranges (motor_targets s) \<and>
     list_all2 in_range motor_ranges (motor_angles s)"

definition adjusted_target :: "real \<times> real \<Rightarrow> string option \<Rightarrow> real \<Rightarrow> real \<Rightarrow> real" where
  "adjusted_target r direction step target =
     (if direction = Some ''increase'' then min (snd r) (target + step)
      else if direction = Some ''decrease'' then max (fst r) (target - step)
      else target)"

text \<open>
  A call sequence of the joint model: adjustments (joint, direction, step) interleaved
  with smoothing ticks.
\<close>

datatype call = Apply_adjustment int string real | Tick_smoothing

fun do_call :: "call \<Rightarrow> state \<Rightarrow> py_error + state" where
  "do_call (Apply_adjustment i d step) s =
     update_robot_action (motor_label i) (Some i) (Some d) step s"
| "do_call Tick_smoothing s = update_motor_angles s"

fun do_calls :: "call list \<Rightarrow> state \<Rightarrow> py_error + state" where
  "do_calls [] s = Inr s"
| "do_calls (c # cs) s = ebind (do_call c s) (do_calls cs)"

fun valid_call :: "call \<Rightarrow> bool" where
  "valid_call (Apply_adjustment i d step) \<longleftrightarrow>
     0 \<le> i \<and> i < 6 \<and> (d = ''increase'' \<or> d = ''decrease'') \<and> 0 \<le> step"
| "valid_call Tick_smoothing \<longleftrightarrow> True"

subsection \<open>Intents, frames and the port-free view\<close>

text \<open>
  Notions the statements about the main loop use. A held key is due at a tick when it is
  mapped and the tick time has reached its scheduled time; \<open>fire_keys\<close> applies one
  adjustment per listed key and reschedules it. An intent is a pair of joint index and
  direction with the step \<open>FAST_STEP_SIZE\<close>: \<open>apply_intent\<close> is its clamped effect on the
  targets, \<open>frames_for\<close> lists, for a sequence of intents, the frame that encodes the
  targets right after each of them, and \<open>write_all\<close> hands frames to the port one by one.
  \<open>accepted_keys\<close> lists the key-down events of a tick that reach
  \<^verbatim>\<open>update_robot_action\<close> (mapped key, not held), \<open>forget_port\<close> drops the serial port
  from a state, and \<open>steady\<close> says that both position lists have six entries and no key
  is held twice. \<open>held_q\<close> is the initial state with Q held and scheduled at 50 ms.
\<close>

definition is_due :: "int \<Rightarrow> state \<Rightarrow> int \<Rightarrow> bool" where
  "is_due now s key \<longleftrightarrow> map_of key_mapping key \<noteq> None \<and> now \<ge> fire_time s key"

definition due_keys :: "int \<Rightarrow> state \<Rightarrow> int list" where
  "due_keys now s = filter (is_due now s) (map fst (keys_pressed s))"

fun fire_keys :: "int \<Rightarrow> int list \<Rightarrow> state \<Rightarrow> py_error + state" where
  "fire_keys now [] s = Inr s"
| "fire_keys now (key # keys) s =
     (case map_of key_mapping key of
        None \<Rightarrow> Inl KeyError
      | Some (motor_index, direction) \<Rightarrow>
         ebind
           (update_robot_action (motor_label motor_index) (Some motor_index)
              (Some direction) FAST_STEP_SIZE s)
           (\<lambda>s'. fire_keys now keys (set_fire_time key (now + KEY_REPEAT_INTERVAL) s')))"

definition forget_port :: "state \<Rightarrow> state" where
  "forget_port s = s\<lparr>arduino := None\<rparr>"

definition encode_frame :: "real list \<Rightarrow> string" where
  "encode_frame ts = join_commas (map (\<lambda>t. str_int (py_int t)) ts) @ ''*''"

definition apply_intent :: "int \<times> string \<Rightarrow> real list \<Rightarrow> real list" where
  "apply_intent intent ts =
     ts[nat (fst intent) :=
          adjusted_target (motor_ranges ! nat (fst intent)) (Some (snd intent)) FAST_STEP_SIZE
            (ts ! nat (fst intent))]"

fun targets_after :: "(int \<times> string) list \<Rightarrow> real list \<Rightarrow> real list" where
  "targets_after [] ts = ts"
| "targets_after (intent # intents) ts = targets_after intents (apply_intent intent ts)"

fun frames_for :: "(int \<times> string) list \<Rightarrow> real list \<Rightarrow> string list" where
  "frames_for [] ts = []"
| "frames_for (intent # intents) ts =
     encode_frame (apply_intent intent ts) # frames_for intents (apply_intent intent ts)"

fun write_all :: "string list \<Rightarrow> serial_port \<Rightarrow> serial_port" where
  "write_all [] p = p"
| "write_all (frame # frames) p = write_all frames (arduino_write frame p)"

definition key_intents :: "int list \<Rightarrow> (int \<times> string) list" where
  "key_intents keys = List.map_filter (map_of key_mapping) keys"

fun accepted_keys :: "event list \<Rightarrow> int list \<Rightarrow> int list" where
  "accepted_keys [] held = []"
| "accepted_keys (KEYDOWN key # evs) held =
     (if map_of key_mapping key \<noteq> None \<and> key \<notin> set held
      then key # accepted_keys evs (held @ [key])
      else accepted_keys evs held)"
| "accepted_keys (KEYUP key # evs) held = accepted_keys evs (removeAll key held)"
| "accepted_keys (ev # evs) held = accepted_keys evs held"

definition steady :: "state \<Rightarrow> bool" where
  "steady s \<longleftrightarrow> length (motor_targets s) = 6 \<and> length (motor_angles s) = 6 \<and>
     distinct (map fst (keys_pressed s))"


section \<open>Properties\<close>

subsection \<open>The command encoder\<close>

lemma py_get_in: "0 \<le> i \<Longrightarrow> i < int (length xs) \<Longrightarrow> py_get xs i = Inr (xs ! nat i)"
  by (simp add: py_get_def py_index_def ebind_def)

lemma digit_char: "d < 10 \<Longrightarrow> ''0123456789'' ! d \<in> set ''0123456789'' \<and> digit_value (''0123456789'' ! d) = d"
proof -
  assume "d < 10"
  then have "d = 0 \<or> d = 1 \<or> d = 2 \<or> d = 3 \<or> d = 4 \<or> d = 5 \<or> d = 6 \<or> d = 7 \<or> d = 8 \<or> d = 9"
    by arith
  then show ?thesis by (elim disjE) (simp_all add: digit_value_def)
qed

lemma str_nat_digits: "set (str_nat n) \<subseteq> set ''0123456789''"
proof (induction n rule: str_nat.induct)
  case (1 n)
  show ?case
  proof (cases "n < 10")
    case True
    then show ?thesis using digit_char [of n] by (subst str_nat.simps) simp
  next
    case False
    then show ?thesis using 1 digit_char [of "n mod 10"] by (subst str_nat.simps) simp
  qed
qed

lemma decimal_value_str_nat: "decimal_value (str_nat n) = n"
proof (induction n rule: str_nat.induct)
  case (1 n)
  show ?case
  proof (cases "n < 10")
    case True
    then show ?thesis using digit_char [of n]
      by (subst str_nat.simps) (simp add: decimal_value_def)
  next
    case False
    then have "decimal_value (str_nat n) = 10 * decimal_value (str_nat (n div 10)) + n mod 10"
      using digit_char [of "n mod 10"] by (subst str_nat.simps) (simp add: decimal_value_def)
    then show ?thesis using 1 False by simp
  qed
qed

lemma str_nat_nonempty: "str_nat n \<noteq> []"
  by (subst str_nat.simps) simp

lemma read_int_str_int: "read_int (str_int i) = i"
proof (cases "i < 0")
  case True
  then show ?thesis by (simp add: read_int_def str_int_def decimal_value_str_nat)
next
  case False
  obtain c ds where eq: "str_nat (nat i) = c # ds"
    using str_nat_nonempty [of "nat i"] by (cases "str_nat (nat i)") auto
  have "c \<in> set ''0123456789''"
    using str_nat_digits [of "nat i"] eq by auto
  then have "c \<noteq> CHR ''-''" by auto
  then have "read_int (c # ds) = int (decimal_value (c # ds))"
    by (simp add: read_int_def)
  also have "\<dots> = int (nat i)"
    using decimal_value_str_nat [of "nat i"] eq by simp
  finally show ?thesis using False eq by (simp add: str_int_def)
qed

lemma py_int_trunc: "\<bar>real_of_int (py_int x)\<bar> \<le> \<bar>x\<bar> \<and> \<bar>x\<bar> < \<bar>real_of_int (py_int x)\<bar> + 1 \<and> (0 \<le> x \<longrightarrow> 0 \<le> py_int x) \<and> (x \<le> 0 \<longrightarrow> py_int x \<le> 0)"
  unfolding py_int_def by (auto; linarith)



lemma digit_is_field_char: "c \<in> set ''0123456789'' \<Longrightarrow> c \<in> set ''-0123456789''"
  by simp

lemma field_is_body_char: "c \<in> set ''-0123456789'' \<Longrightarrow> c \<in> set ''-0123456789,''"
proof -
  assume "c \<in> set ''-0123456789''"
  then have "c \<in> set (''-0123456789'' @ '','')" by (simp only: set_append UnI1)
  then show ?thesis by simp
qed

lemma str_int_chars: "set (str_int i) \<subseteq> set ''-0123456789''"
proof
  fix c assume c: "c \<in> set (str_int i)"
  show "c \<in> set ''-0123456789''"
  proof (cases "i < 0")
    case True
    with c have "c = CHR ''-'' \<or> c \<in> set (str_nat (nat (- i)))"
      by (simp add: str_int_def)
    then show ?thesis
    proof
      assume "c = CHR ''-''" then show ?thesis by simp
    next
      assume "c \<in> set (str_nat (nat (- i)))"
      then have "c \<in> set ''0123456789''" using str_nat_digits by blast
      then show ?thesis by (rule digit_is_field_char)
    qed
  next
    case False
    with c have "c \<in> set (str_nat (nat i))" by (simp add: str_int_def)
    then have "c \<in> set ''0123456789''" using str_nat_digits by blast
    then show ?thesis by (rule digit_is_field_char)
  qed
qed

lemma join_commas_chars:
  assumes "\<forall>w \<in> set ws. set w \<subseteq> set ''-0123456789''"
  shows "set (join_commas ws) \<subseteq> set ''-0123456789,''"
proof
  fix c assume "c \<in> set (join_commas ws)"
  then have "c = CHR '','' \<or> (\<exists>w \<in> set ws. c \<in> set w)"
    by (cases ws) (auto simp: join_commas_def split: if_splits)
  then show "c \<in> set ''-0123456789,''"
  proof
    assume "c = CHR '',''" then show ?thesis by simp
  next
    assume "\<exists>w \<in> set ws. c \<in> set w"
    then have "c \<in> set ''-0123456789''" using assms by blast
    then show ?thesis by (rule field_is_body_char)
  qed
qed


lemma command_six:
  "command [t0, t1, t2, t3, t4, t5] =
     Inr (join_commas (map (\<lambda>t. str_int (py_int t)) [t0, t1, t2, t3, t4, t5]) @ ''*'')"
  by (simp add: command_def py_get_in ebind_def join_commas_def)

lemma length_six: "length xs = 6 \<Longrightarrow> \<exists>a b c d e f. xs = [a, b, c, d, e, f]"
  by (auto simp: length_Suc_conv eval_nat_numeral)

text \<open>
  Claim C2. For six targets the encoder returns the decimal texts of the six values, each
  cut to an integer by dropping its fractional part, in joint order, joined by single
  commas and closed by one \<open>*\<close>; nothing follows the \<open>*\<close>, and the body holds only
  digits, minus signs and commas. Each field reads back as the truncated value, which
  lies between zero and the target and less than one away from it. The targets
  \<open>1,2,3,4,5,6\<close> give \<open>1,2,3,4,5,6*\<close>.
\<close>

theorem command_frame_format:
  "length ts = 6 \<Longrightarrow>
     (\<exists>body. command ts = Inr (body @ ''*'') \<and>
        body = join_commas (map (\<lambda>t. str_int (py_int t)) ts) \<and>
        set body \<subseteq> set ''-0123456789,'') \<and>
     (\<forall>t \<in> set ts.
        read_int (str_int (py_int t)) = py_int t \<and>
        \<bar>real_of_int (py_int t)\<bar> \<le> \<bar>t\<bar> \<and> \<bar>t\<bar> < \<bar>real_of_int (py_int t)\<bar> + 1 \<and>
        (0 \<le> t \<longrightarrow> 0 \<le> py_int t) \<and> (t \<le> 0 \<longrightarrow> py_int t \<le> 0)) \<and>
     command [1, 2, 3, 4, 5, 6] = Inr ''1,2,3,4,5,6*''"
proof -
  assume len: "length ts = 6"
  then obtain a b c d e f where ts: "ts = [a, b, c, d, e, f]"
    using length_six by blast
  have chars: "set (join_commas (map (\<lambda>t. str_int (py_int t)) ts)) \<subseteq> set ''-0123456789,''"
  proof (rule join_commas_chars, rule ballI)
    fix w assume "w \<in> set (map (\<lambda>t. str_int (py_int t)) ts)"
    then obtain t where "w = str_int (py_int t)" by (auto simp del: set_simps)
    then show "set w \<subseteq> set ''-0123456789''" using str_int_chars by simp
  qed
  have frame: "command ts = Inr (join_commas (map (\<lambda>t. str_int (py_int t)) ts) @ ''*'')"
    unfolding ts by (rule command_six)
  have one: "command [1, 2, 3, 4, 5, 6] = Inr ''1,2,3,4,5,6*''"
    unfolding command_six by (simp add: join_commas_def py_int_def str_int_def str_nat.simps)
  have fields: "\<forall>t \<in> set ts.
        read_int (str_int (py_int t)) = py_int t \<and>
        \<bar>real_of_int (py_int t)\<bar> \<le> \<bar>t\<bar> \<and> \<bar>t\<bar> < \<bar>real_of_int (py_int t)\<bar> + 1 \<and>
        (0 \<le> t \<longrightarrow> 0 \<le> py_int t) \<and> (t \<le> 0 \<longrightarrow> py_int t \<le> 0)"
    using py_int_trunc read_int_str_int by simp
  from frame chars have "\<exists>body. command ts = Inr (body @ ''*'') \<and>
        body = join_commas (map (\<lambda>t. str_int (py_int t)) ts) \<and>
        set body \<subseteq> set ''-0123456789,''"
    by (intro exI [of _ "join_commas (map (\<lambda>t. str_int (py_int t)) ts)"] conjI) simp_all
  with fields one show ?thesis by (intro conjI)
qed

text \<open>Truncation, not rounding: \<open>1.9\<close> is sent as \<open>1\<close> and \<open>-3.99\<close> as \<open>-3\<close>.\<close>

theorem command_frame_format_witness:
  "length [1.9, 2.5, - 2.5, - 3.99, 1023, 0 :: real] = 6 \<and>
   command [1.9, 2.5, - 2.5, - 3.99, 1023, 0] = Inr ''1,2,-2,-3,1023,0*''"
proof -
  have len: "length [1.9, 2.5, - 2.5, - 3.99, 1023, 0 :: real] = 6" by simp
  have ev: "map (\<lambda>t. str_int (py_int t)) [1.9, 2.5, - 2.5, - 3.99, 1023, 0 :: real]
      = [''1'', ''2'', ''-2'', ''-3'', ''1023'', ''0'']"
    by (simp add: py_int_def str_int_def str_nat.simps)
  from command_frame_format [OF len] obtain body where
    c: "command [1.9, 2.5, - 2.5, - 3.99, 1023, 0] = Inr (body @ ''*'')" and
    b: "body = join_commas (map (\<lambda>t. str_int (py_int t)) [1.9, 2.5, - 2.5, - 3.99, 1023, 0])"
    by (elim conjE exE)
  have "body = ''1,2,-2,-3,1023,0''"
    unfolding b ev by (simp add: join_commas_def)
  with c have "command [1.9, 2.5, - 2.5, - 3.99, 1023, 0] = Inr ''1,2,-2,-3,1023,0*''"
    by simp
  with len show ?thesis by (intro conjI)
qed

subsection \<open>Smoothing\<close>

lemma py_get_nat: "i < length xs \<Longrightarrow> py_get xs (int i) = Inr (xs ! i)"
  by (simp add: py_get_def py_index_def ebind_def)

lemma py_set_nat: "i < length xs \<Longrightarrow> py_set xs (int i) v = Inr (xs[i := v])"
  by (simp add: py_set_def py_index_def ebind_def)

lemma smooth_joint_in:
  assumes "i < length (motor_targets s)" "i < length (motor_angles s)"
  shows "smooth_joint i s =
     Inr (s\<lparr>motor_angles := (motor_angles s)
            [i := smoothing_rule (motor_targets s ! i) (motor_angles s ! i)]\<rparr>)"
  using assms
  by (simp add: smooth_joint_def py_get_nat py_set_nat ebind_def smoothing_rule_def Let_def)

lemma update_motor_angles_loop_in:
  assumes "\<forall>i \<in> set js. i < length (motor_targets s) \<and> i < length (motor_angles s)"
    and "distinct js"
  shows "\<exists>as. update_motor_angles_loop js s = Inr (s\<lparr>motor_angles := as\<rparr>) \<and>
           length as = length (motor_angles s) \<and>
           (\<forall>j < length as. as ! j =
              (if j \<in> set js then smoothing_rule (motor_targets s ! j) (motor_angles s ! j)
               else motor_angles s ! j))"
  using assms
proof (induction js arbitrary: s)
  case Nil
  have "s = s\<lparr>motor_angles := motor_angles s\<rparr>" by simp
  then show ?case by (intro exI [of _ "motor_angles s"]) simp
next
  case (Cons i js)
  let ?s1 = "s\<lparr>motor_angles := (motor_angles s)
            [i := smoothing_rule (motor_targets s ! i) (motor_angles s ! i)]\<rparr>"
  have step: "smooth_joint i s = Inr ?s1"
    using Cons.prems by (intro smooth_joint_in) simp_all
  have "\<forall>j \<in> set js. j < length (motor_targets ?s1) \<and> j < length (motor_angles ?s1)"
    using Cons.prems by simp
  moreover have "distinct js" using Cons.prems by simp
  ultimately obtain as where
    run: "update_motor_angles_loop js ?s1 = Inr (?s1\<lparr>motor_angles := as\<rparr>)" and
    len: "length as = length (motor_angles ?s1)" and
    nth: "\<forall>j < length as. as ! j =
              (if j \<in> set js then smoothing_rule (motor_targets ?s1 ! j) (motor_angles ?s1 ! j)
               else motor_angles ?s1 ! j)"
    using Cons.IH [of ?s1] by blast
  have notin: "i \<notin> set js" using Cons.prems by simp
  have "update_motor_angles_loop (i # js) s = Inr (s\<lparr>motor_angles := as\<rparr>)"
    using step run by (simp add: ebind_def)
  moreover have "length as = length (motor_angles s)" using len by simp
  moreover have "\<forall>j < length as. as ! j =
              (if j \<in> set (i # js) then smoothing_rule (motor_targets s ! j) (motor_angles s ! j)
               else motor_angles s ! j)"
  proof (intro allI impI)
    fix j assume j: "j < length as"
    show "as ! j = (if j \<in> set (i # js) then smoothing_rule (motor_targets s ! j) (motor_angles s ! j)
               else motor_angles s ! j)"
    proof (cases "j = i")
      case True
      then show ?thesis using nth j notin len by simp
    next
      case False
      then show ?thesis using nth j len by simp
    qed
  qed
  ultimately show ?case by blast
qed

lemma update_motor_angles_eq:
  assumes "length (motor_angles s) = length (motor_targets s)"
  shows "update_motor_angles s =
     Inr (s\<lparr>motor_angles := map2 smoothing_rule (motor_targets s) (motor_angles s)\<rparr>)"
proof -
  let ?n = "length (motor_targets s)"
  have "\<forall>i \<in> set [0..<?n]. i < length (motor_targets s) \<and> i < length (motor_angles s)"
    using assms by simp
  then obtain as where
    run: "update_motor_angles_loop [0..<?n] s = Inr (s\<lparr>motor_angles := as\<rparr>)" and
    len: "length as = length (motor_angles s)" and
    nth: "\<forall>j < length as. as ! j =
              (if j \<in> set [0..<?n] then smoothing_rule (motor_targets s ! j) (motor_angles s ! j)
               else motor_angles s ! j)"
    using update_motor_angles_loop_in [of "[0..<?n]" s] by auto
  have "as = map2 smoothing_rule (motor_targets s) (motor_angles s)"
    using len nth assms by (intro nth_equalityI) simp_all
  then show ?thesis using run by (simp add: update_motor_angles_def)
qed

lemma smoothing_rule_far:
  assumes "\<bar>t - c\<bar> > 0.5"
  shows "t - smoothing_rule t c = 0.9 * (t - c)"
proof -
  have "smoothing_rule t c = c + (t - c) * 0.1" using assms by (simp add: smoothing_rule_def)
  then show ?thesis by (simp add: field_simps)
qed

lemma smoothing_rule_far_abs:
  assumes "\<bar>t - c\<bar> > 0.5"
  shows "\<bar>t - smoothing_rule t c\<bar> = 0.9 * \<bar>t - c\<bar>"
  unfolding smoothing_rule_far [OF assms] abs_mult by simp

lemma smoothing_rule_closer:
  assumes "\<bar>t - c\<bar> > 0.5"
  shows "\<bar>t - smoothing_rule t c\<bar> < \<bar>t - c\<bar>"
proof -
  have "t \<noteq> c" using assms by auto
  then show ?thesis unfolding smoothing_rule_far_abs [OF assms] by simp
qed

lemma smoothing_rule_rising:
  assumes "\<bar>t - c\<bar> > 0.5" "c < t"
  shows "c < smoothing_rule t c \<and> smoothing_rule t c < t"
  using smoothing_rule_far [OF assms(1)] assms(2) by (simp add: field_simps)

lemma smoothing_rule_falling:
  assumes "\<bar>t - c\<bar> > 0.5" "t < c"
  shows "t < smoothing_rule t c \<and> smoothing_rule t c < c"
  using smoothing_rule_far [OF assms(1)] assms(2) by (simp add: field_simps)

lemma smoothing_rule_near: "\<bar>t - c\<bar> \<le> 0.5 \<Longrightarrow> smoothing_rule t c = t"
  by (simp add: smoothing_rule_def)

lemma smoothing_rule_fix: "smoothing_rule t t = t"
  by (simp add: smoothing_rule_def)

lemma smoothing_rule_funpow_fix: "(smoothing_rule t ^^ n) t = t"
  by (induction n) (simp_all add: smoothing_rule_fix)

lemma smoothing_rule_reaches:
  "0.9 ^ k * \<bar>t - c\<bar> \<le> 0.5 \<Longrightarrow> (smoothing_rule t ^^ Suc k) c = t"
proof (induction k arbitrary: c)
  case 0
  then show ?case by (simp add: smoothing_rule_near)
next
  case (Suc k)
  show ?case
  proof (cases "\<bar>t - c\<bar> > 0.5")
    case True
    then have "\<bar>t - smoothing_rule t c\<bar> = 0.9 * \<bar>t - c\<bar>"
      by (rule smoothing_rule_far_abs)
    then have "0.9 ^ k * \<bar>t - smoothing_rule t c\<bar> = 0.9 ^ Suc k * \<bar>t - c\<bar>"
      by (simp only: power_Suc mult_ac)
    then have "0.9 ^ k * \<bar>t - smoothing_rule t c\<bar> \<le> 0.5"
      using Suc.prems by (simp only:)
    then have "(smoothing_rule t ^^ Suc k) (smoothing_rule t c) = t"
      by (rule Suc.IH)
    then show ?thesis by (simp add: funpow_swap1)
  next
    case False
    then have "smoothing_rule t c = t" by (simp add: smoothing_rule_near)
    then have "(smoothing_rule t ^^ Suc (Suc k)) c = (smoothing_rule t ^^ Suc k) t"
      by (simp add: funpow_swap1)
    then show ?thesis by (simp only: smoothing_rule_funpow_fix)
  qed
qed

lemma smoothing_rule_step:
  "(\<bar>t - c\<bar> > 0.5 \<longrightarrow>
      \<bar>t - smoothing_rule t c\<bar> < \<bar>t - c\<bar> \<and>
      (c < t \<longrightarrow> c < smoothing_rule t c \<and> smoothing_rule t c < t) \<and>
      (t < c \<longrightarrow> t < smoothing_rule t c \<and> smoothing_rule t c < c)) \<and>
   (\<bar>t - c\<bar> \<le> 0.5 \<longrightarrow> smoothing_rule t c = t)"
  using smoothing_rule_closer [of t c] smoothing_rule_rising [of t c] smoothing_rule_falling [of t c] smoothing_rule_near [of t c] by blast

lemma smoothing_rule_converges: "\<exists>N. \<forall>n \<ge> N. (smoothing_rule t ^^ n) c = t"
proof -
  have "\<exists>k. 0.9 ^ k * \<bar>t - c\<bar> \<le> 0.5"
  proof (cases "t = c")
    case True
    then show ?thesis by simp
  next
    case False
    then have gap: "0 < \<bar>t - c\<bar>" by simp
    then have pos: "0 < 0.5 / \<bar>t - c\<bar>" by simp
    have lt: "(0.9::real) < 1" by simp
    from real_arch_pow_inv [OF pos lt] obtain k where
      k: "(0.9::real) ^ k < 0.5 / \<bar>t - c\<bar>" ..
    from k gap have "0.9 ^ k * \<bar>t - c\<bar> < 0.5 / \<bar>t - c\<bar> * \<bar>t - c\<bar>"
      by (rule mult_strict_right_mono)
    also have "\<dots> = 0.5" using gap by simp
    finally show ?thesis by (intro exI [of _ k]) (rule less_imp_le)
  qed
  then obtain k where k: "(smoothing_rule t ^^ Suc k) c = t"
    using smoothing_rule_reaches by blast
  have "(smoothing_rule t ^^ n) c = t" if "n \<ge> Suc k" for n
  proof -
    define m where "m = n - Suc k"
    have "n = m + Suc k" using that by (simp add: m_def)
    then have "(smoothing_rule t ^^ n) c = (smoothing_rule t ^^ m) ((smoothing_rule t ^^ Suc k) c)"
      by (simp only: funpow_add o_apply)
    then show ?thesis by (simp only: k smoothing_rule_funpow_fix)
  qed
  then show ?thesis by blast
qed

lemma smooth_ticks_eq:
  assumes "length (motor_angles s) = length (motor_targets s)"
  shows "smooth_ticks n s =
     Inr (s\<lparr>motor_angles := map2 (\<lambda>t c. (smoothing_rule t ^^ n) c) (motor_targets s) (motor_angles s)\<rparr>)"
  using assms
proof (induction n arbitrary: s)
  case 0
  have "map2 (\<lambda>t c. c) (motor_targets s) (motor_angles s) = motor_angles s"
    using 0 by (intro nth_equalityI) simp_all
  then show ?case by simp
next
  case (Suc n)
  let ?s1 = "s\<lparr>motor_angles := map2 smoothing_rule (motor_targets s) (motor_angles s)\<rparr>"
  have len: "length (motor_angles ?s1) = length (motor_targets ?s1)" using Suc.prems by simp
  have "map2 (\<lambda>t c. (smoothing_rule t ^^ n) c) (motor_targets ?s1) (motor_angles ?s1) =
        map2 (\<lambda>t c. (smoothing_rule t ^^ Suc n) c) (motor_targets s) (motor_angles s)"
    using Suc.prems by (intro nth_equalityI) (simp_all add: funpow_swap1)
  then show ?case
    using Suc.IH [OF len] update_motor_angles_eq [OF Suc.prems]
    by (simp add: ebind_def)
qed

text \<open>
  Claim C3. One smoothing tick replaces every angle by the rule applied to the target and
  the angle of the same joint (ten percent of the gap when the gap exceeds 0.5, the target
  itself otherwise) and changes nothing else in the state.
\<close>

theorem tick_smoothing_update:
  "length (motor_angles s) = length (motor_targets s) \<Longrightarrow>
   update_motor_angles s =
     Inr (s\<lparr>motor_angles := map2 smoothing_rule (motor_targets s) (motor_angles s)\<rparr>)"
  by (rule update_motor_angles_eq)

theorem tick_smoothing_update_witness:
  "length (motor_angles ((initial_state None)\<lparr>motor_targets := [515, 512.3, 512, 956, 790, 430]\<rparr>)) =
   length (motor_targets ((initial_state None)\<lparr>motor_targets := [515, 512.3, 512, 956, 790, 430]\<rparr>)) \<and>
   update_motor_angles ((initial_state None)\<lparr>motor_targets := [515, 512.3, 512, 956, 790, 430]\<rparr>) =
     Inr \<lparr> motor_angles = [512.3, 512.3, 512, 956, 799, 430],
           motor_targets = [515, 512.3, 512, 956, 790, 430],
           keys_pressed = [], last_command_time = [], running = True, arduino = None \<rparr>"
proof -
  let ?s = "(initial_state None)\<lparr>motor_targets := [515, 512.3, 512, 956, 790, 430]\<rparr>"
  have len: "length (motor_angles ?s) = length (motor_targets ?s)"
    by (simp add: initial_state_def)
  show ?thesis
    using tick_smoothing_update [OF len] len
    by (simp add: initial_state_def smoothing_rule_def)
qed

text \<open>
  Claim C4. With the target fixed, every tick with a gap above 0.5 makes the gap strictly
  smaller and moves the angle strictly towards the target without passing it; a tick with
  a gap of at most 0.5 sets the angle to the target; after finitely many ticks the angle
  equals the target and stays there. Every run of ticks returns.
\<close>

theorem smoothing_monotone_convergence:
  assumes "length (motor_angles s) = length (motor_targets s)"
    and "i < length (motor_targets s)"
  shows "\<exists>run.
     (\<forall>n. smooth_ticks n s = Inr (run n) \<and> motor_targets (run n) = motor_targets s) \<and>
     (\<forall>n. (\<bar>motor_targets s ! i - motor_angles (run n) ! i\<bar> > 0.5 \<longrightarrow>
             \<bar>motor_targets s ! i - motor_angles (run (Suc n)) ! i\<bar>
               < \<bar>motor_targets s ! i - motor_angles (run n) ! i\<bar> \<and>
             (motor_angles (run n) ! i < motor_targets s ! i \<longrightarrow>
                motor_angles (run n) ! i < motor_angles (run (Suc n)) ! i \<and>
                motor_angles (run (Suc n)) ! i < motor_targets s ! i) \<and>
             (motor_targets s ! i < motor_angles (run n) ! i \<longrightarrow>
                motor_targets s ! i < motor_angles (run (Suc n)) ! i \<and>
                motor_angles (run (Suc n)) ! i < motor_angles (run n) ! i)) \<and>
          (\<bar>motor_targets s ! i - motor_angles (run n) ! i\<bar> \<le> 0.5 \<longrightarrow>
             motor_angles (run (Suc n)) ! i = motor_targets s ! i)) \<and>
     (\<exists>N. \<forall>n \<ge> N. motor_angles (run n) ! i = motor_targets s ! i)"
proof -
  define run where "run n = s\<lparr>motor_angles :=
      map2 (\<lambda>t c. (smoothing_rule t ^^ n) c) (motor_targets s) (motor_angles s)\<rparr>" for n
  let ?t = "motor_targets s ! i"
  have nth: "motor_angles (run n) ! i = (smoothing_rule ?t ^^ n) (motor_angles s ! i)" for n
    using assms by (simp add: run_def)
  have suc: "motor_angles (run (Suc n)) ! i = smoothing_rule ?t (motor_angles (run n) ! i)" for n
    by (simp add: nth)
  have a: "\<forall>n. smooth_ticks n s = Inr (run n) \<and> motor_targets (run n) = motor_targets s"
    using smooth_ticks_eq [OF assms(1)] by (simp add: run_def)
  have b: "\<forall>n. (\<bar>?t - motor_angles (run n) ! i\<bar> > 0.5 \<longrightarrow>
             \<bar>?t - motor_angles (run (Suc n)) ! i\<bar> < \<bar>?t - motor_angles (run n) ! i\<bar> \<and>
             (motor_angles (run n) ! i < ?t \<longrightarrow>
                motor_angles (run n) ! i < motor_angles (run (Suc n)) ! i \<and>
                motor_angles (run (Suc n)) ! i < ?t) \<and>
             (?t < motor_angles (run n) ! i \<longrightarrow>
                ?t < motor_angles (run (Suc n)) ! i \<and>
                motor_angles (run (Suc n)) ! i < motor_angles (run n) ! i)) \<and>
          (\<bar>?t - motor_angles (run n) ! i\<bar> \<le> 0.5 \<longrightarrow> motor_angles (run (Suc n)) ! i = ?t)"
    unfolding suc using smoothing_rule_step by blast
  have c: "\<exists>N. \<forall>n \<ge> N. motor_angles (run n) ! i = ?t"
    unfolding nth by (rule smoothing_rule_converges)
  from a b c show ?thesis by (intro exI [of _ run] conjI)
qed

theorem smoothing_monotone_convergence_witness:
  "length (motor_angles ((initial_state None)\<lparr>motor_targets := [515, 512, 512, 956, 790, 430]\<rparr>)) =
   length (motor_targets ((initial_state None)\<lparr>motor_targets := [515, 512, 512, 956, 790, 430]\<rparr>)) \<and>
   4 < length (motor_targets ((initial_state None)\<lparr>motor_targets := [515, 512, 512, 956, 790, 430]\<rparr>)) \<and>
   (\<exists>N. \<forall>n \<ge> N. \<exists>s'.
      smooth_ticks n ((initial_state None)\<lparr>motor_targets := [515, 512, 512, 956, 790, 430]\<rparr>) = Inr s' \<and>
      motor_angles s' ! 4 = 790)"
proof -
  let ?s = "(initial_state None)\<lparr>motor_targets := [515, 512, 512, 956, 790, 430]\<rparr>"
  have len: "length (motor_angles ?s) = length (motor_targets ?s)"
    by (simp add: initial_state_def)
  have i: "4 < length (motor_targets ?s)" by simp
  have t: "motor_targets ?s ! 4 = 790" by simp
  from smoothing_monotone_convergence [OF len i] obtain run N where
    "\<forall>n. smooth_ticks n ?s = Inr (run n) \<and> motor_targets (run n) = motor_targets ?s"
    "\<forall>n \<ge> N. motor_angles (run n) ! 4 = motor_targets ?s ! 4"
    by blast
  then have "\<forall>n \<ge> N. \<exists>s'. smooth_ticks n ?s = Inr s' \<and> motor_angles s' ! 4 = 790"
    unfolding t by blast
  with len i show ?thesis by blast
qed

subsection \<open>Adjustment and the range invariant\<close>

lemma length_motor_ranges: "length motor_ranges = 6"
  by (simp add: motor_ranges_def)

lemma py_set_in: "0 \<le> i \<Longrightarrow> i < int (length xs) \<Longrightarrow> py_set xs i v = Inr (xs[nat i := v])"
  by (simp add: py_set_def py_index_def ebind_def)

lemma send_command_fields:
  "motor_targets (send_command s) = motor_targets s"
  "motor_angles (send_command s) = motor_angles s"
  "keys_pressed (send_command s) = keys_pressed s"
  "last_command_time (send_command s) = last_command_time s"
  "running (send_command s) = running s"
  by (simp_all add: send_command_def split: sum.splits option.splits)

lemma update_robot_action_joint:
  assumes "0 \<le> i" "i < 6" "length (motor_targets s) = 6"
  shows "update_robot_action a (Some i) d step s =
     Inr (send_command (s\<lparr>motor_targets := (motor_targets s)
            [nat i := adjusted_target (motor_ranges ! nat i) d step (motor_targets s ! nat i)]\<rparr>))"
proof -
  have r: "py_get motor_ranges i = Inr (motor_ranges ! nat i)"
    using assms by (intro py_get_in) (simp_all add: length_motor_ranges)
  have g: "py_get (motor_targets s) i = Inr (motor_targets s ! nat i)"
    using assms by (intro py_get_in) simp_all
  have u: "py_set (motor_targets s) i v = Inr ((motor_targets s)[nat i := v])" for v
    using assms by (intro py_set_in) simp_all
  show ?thesis
    by (simp add: update_robot_action_def r g u ebind_def adjusted_target_def case_prod_beta)
qed

lemma adjusted_target_in_range:
  assumes "in_range r t" "0 \<le> step"
  shows "in_range r (adjusted_target r d step t)"
  using assms by (auto simp: in_range_def adjusted_target_def)

lemma smoothing_rule_between:
  "(c \<le> t \<longrightarrow> c \<le> smoothing_rule t c \<and> smoothing_rule t c \<le> t) \<and>
   (t \<le> c \<longrightarrow> t \<le> smoothing_rule t c \<and> smoothing_rule t c \<le> c)"
  using smoothing_rule_step [of t c] by (cases "\<bar>t - c\<bar> > 0.5") auto

lemma smoothing_rule_in_range:
  assumes "in_range r t" "in_range r c"
  shows "in_range r (smoothing_rule t c)"
  using assms smoothing_rule_between [of c t] by (auto simp: in_range_def)

lemma within_ranges_lengths:
  "within_ranges s \<Longrightarrow> length (motor_targets s) = 6 \<and> length (motor_angles s) = 6"
  using length_motor_ranges by (auto simp: within_ranges_def dest: list_all2_lengthD)

lemma adjust_keeps_ranges:
  assumes w: "within_ranges s" and i: "0 \<le> i" "i < 6" and step: "0 \<le> step"
  shows "\<exists>s'. update_robot_action a (Some i) d step s = Inr s' \<and> within_ranges s' \<and>
     motor_targets s' = (motor_targets s)
        [nat i := adjusted_target (motor_ranges ! nat i) d step (motor_targets s ! nat i)] \<and>
     motor_angles s' = motor_angles s"
proof -
  let ?ts = "(motor_targets s)
        [nat i := adjusted_target (motor_ranges ! nat i) d step (motor_targets s ! nat i)]"
  have len: "length (motor_targets s) = 6" using w within_ranges_lengths by blast
  have all: "list_all2 in_range motor_ranges (motor_targets s)"
    using w by (simp add: within_ranges_def)
  have k: "nat i < length motor_ranges" using i by (simp add: length_motor_ranges)
  then have "in_range (motor_ranges ! nat i) (motor_targets s ! nat i)"
    using all by (simp add: list_all2_conv_all_nth)
  then have "in_range (motor_ranges ! nat i)
      (adjusted_target (motor_ranges ! nat i) d step (motor_targets s ! nat i))"
    using step by (rule adjusted_target_in_range)
  with all have "list_all2 in_range (motor_ranges[nat i := motor_ranges ! nat i]) ?ts"
    by (rule list_all2_update_cong)
  then have "list_all2 in_range motor_ranges ?ts" by simp
  then have "within_ranges (send_command (s\<lparr>motor_targets := ?ts\<rparr>))"
    using w by (simp add: within_ranges_def send_command_fields)
  then show ?thesis
    using update_robot_action_joint [OF i len] by (simp add: send_command_fields)
qed

lemma smoothing_keeps_ranges:
  assumes w: "within_ranges s"
  shows "\<exists>s'. update_motor_angles s = Inr s' \<and> within_ranges s' \<and>
     motor_targets s' = motor_targets s \<and>
     motor_angles s' = map2 smoothing_rule (motor_targets s) (motor_angles s)"
proof -
  have len: "length (motor_angles s) = length (motor_targets s)"
    using w within_ranges_lengths by simp
  have t: "list_all2 in_range motor_ranges (motor_targets s)"
    and c: "list_all2 in_range motor_ranges (motor_angles s)"
    using w by (simp_all add: within_ranges_def)
  have "list_all2 in_range motor_ranges (map2 smoothing_rule (motor_targets s) (motor_angles s))"
    using t c len by (auto simp: list_all2_conv_all_nth intro: smoothing_rule_in_range)
  then show ?thesis
    using update_motor_angles_eq [OF len] t by (simp add: within_ranges_def)
qed

lemma call_keeps_ranges:
  assumes "within_ranges s" "valid_call c"
  shows "\<exists>s'. do_call c s = Inr s' \<and> within_ranges s'"
proof (cases c)
  case (Apply_adjustment i d step)
  then show ?thesis
    using assms adjust_keeps_ranges [of s i step "motor_label i" "Some d"] by auto
next
  case Tick_smoothing
  then show ?thesis using assms smoothing_keeps_ranges [of s] by auto
qed

lemma calls_keep_ranges:
  assumes "within_ranges s" "\<forall>c \<in> set cs. valid_call c"
  shows "\<exists>s'. do_calls cs s = Inr s' \<and> within_ranges s'"
  using assms
proof (induction cs arbitrary: s)
  case Nil
  then show ?case by simp
next
  case (Cons c cs)
  then obtain s1 where s1: "do_call c s = Inr s1" "within_ranges s1"
    using call_keeps_ranges [of s c] by auto
  then obtain s' where "do_calls cs s1 = Inr s'" "within_ranges s'"
    using Cons.IH [of s1] Cons.prems by auto
  then show ?case using s1 by (simp add: ebind_def)
qed

lemma initial_within_ranges: "within_ranges (initial_state p)"
  by (simp add: within_ranges_def initial_state_def motor_ranges_def in_range_def)

text \<open>
  Claim C1. From a state whose six targets and six angles lie in their ranges, every finite
  sequence of adjustments (joint 0..5, direction increase or decrease, step at least 0)
  and smoothing ticks returns a state with the same property. An increase stores
  \<open>min max (target + step)\<close>, a decrease \<open>max min (target - step)\<close>, neither touches
  the angles, and a smoothing tick leaves each angle between its old value and the target.
\<close>

theorem positions_stay_within_ranges:
  assumes "within_ranges s" and "\<forall>c \<in> set cs. valid_call c"
  shows "(\<exists>s'. do_calls cs s = Inr s' \<and> within_ranges s') \<and>
    (\<forall>i step. 0 \<le> i \<and> i < 6 \<longrightarrow>
       (\<exists>s'. do_call (Apply_adjustment i ''increase'' step) s = Inr s' \<and>
          motor_targets s' = (motor_targets s)
            [nat i := min (snd (motor_ranges ! nat i)) (motor_targets s ! nat i + step)] \<and>
          motor_angles s' = motor_angles s) \<and>
       (\<exists>s'. do_call (Apply_adjustment i ''decrease'' step) s = Inr s' \<and>
          motor_targets s' = (motor_targets s)
            [nat i := max (fst (motor_ranges ! nat i)) (motor_targets s ! nat i - step)] \<and>
          motor_angles s' = motor_angles s)) \<and>
    (\<exists>s'. do_call Tick_smoothing s = Inr s' \<and> motor_targets s' = motor_targets s \<and>
       (\<forall>i < 6. (motor_angles s ! i \<le> motor_targets s ! i \<longrightarrow>
                   motor_angles s ! i \<le> motor_angles s' ! i \<and>
                   motor_angles s' ! i \<le> motor_targets s ! i) \<and>
                (motor_targets s ! i \<le> motor_angles s ! i \<longrightarrow>
                   motor_targets s ! i \<le> motor_angles s' ! i \<and>
                   motor_angles s' ! i \<le> motor_angles s ! i)))"
proof (intro conjI allI impI)
  show "\<exists>s'. do_calls cs s = Inr s' \<and> within_ranges s'"
    using assms by (rule calls_keep_ranges)
next
  fix i :: int and step :: real
  assume i: "0 \<le> i \<and> i < 6"
  have len: "length (motor_targets s) = 6" using assms(1) within_ranges_lengths by blast
  show "\<exists>s'. do_call (Apply_adjustment i ''increase'' step) s = Inr s' \<and>
          motor_targets s' = (motor_targets s)
            [nat i := min (snd (motor_ranges ! nat i)) (motor_targets s ! nat i + step)] \<and>
          motor_angles s' = motor_angles s"
    using i len update_robot_action_joint [of i s "motor_label i" "Some ''increase''" step]
    by (simp add: send_command_fields adjusted_target_def)
  show "\<exists>s'. do_call (Apply_adjustment i ''decrease'' step) s = Inr s' \<and>
          motor_targets s' = (motor_targets s)
            [nat i := max (fst (motor_ranges ! nat i)) (motor_targets s ! nat i - step)] \<and>
          motor_angles s' = motor_angles s"
    using i len update_robot_action_joint [of i s "motor_label i" "Some ''decrease''" step]
    by (simp add: send_command_fields adjusted_target_def)
next
  obtain s' where s': "update_motor_angles s = Inr s'" "motor_targets s' = motor_targets s"
    "motor_angles s' = map2 smoothing_rule (motor_targets s) (motor_angles s)"
    using smoothing_keeps_ranges [OF assms(1)] by blast
  have len: "length (motor_targets s) = 6" "length (motor_angles s) = 6"
    using assms(1) within_ranges_lengths by blast+
  have "\<forall>i < 6. (motor_angles s ! i \<le> motor_targets s ! i \<longrightarrow>
                   motor_angles s ! i \<le> motor_angles s' ! i \<and>
                   motor_angles s' ! i \<le> motor_targets s ! i) \<and>
                (motor_targets s ! i \<le> motor_angles s ! i \<longrightarrow>
                   motor_targets s ! i \<le> motor_angles s' ! i \<and>
                   motor_angles s' ! i \<le> motor_angles s ! i)"
    using len s'(3) smoothing_rule_between by simp
  then show "\<exists>s'. do_call Tick_smoothing s = Inr s' \<and> motor_targets s' = motor_targets s \<and>
       (\<forall>i < 6. (motor_angles s ! i \<le> motor_targets s ! i \<longrightarrow>
                   motor_angles s ! i \<le> motor_angles s' ! i \<and>
                   motor_angles s' ! i \<le> motor_targets s ! i) \<and>
                (motor_targets s ! i \<le> motor_angles s ! i \<longrightarrow>
                   motor_targets s ! i \<le> motor_angles s' ! i \<and>
                   motor_angles s' ! i \<le> motor_angles s ! i))"
    using s'(1,2) by simp
qed

text \<open>Joint 1 has the range 512..634: fifty increases by 3 and a tick stay inside.\<close>

theorem positions_stay_within_ranges_witness:
  "within_ranges (initial_state None) \<and>
   list_all valid_call (replicate 50 (Apply_adjustment 1 ''increase'' 3) @ [Tick_smoothing]) \<and>
   (\<exists>s'. do_calls (replicate 50 (Apply_adjustment 1 ''increase'' 3) @ [Tick_smoothing])
            (initial_state None) = Inr s' \<and> within_ranges s')"
proof -
  have v: "\<forall>c \<in> set (replicate 50 (Apply_adjustment 1 ''increase'' 3) @ [Tick_smoothing]). valid_call c"
    by auto
  then have l: "list_all valid_call (replicate 50 (Apply_adjustment 1 ''increase'' 3) @ [Tick_smoothing])"
    by (simp only: list_all_iff)
  show ?thesis
    using positions_stay_within_ranges [OF initial_within_ranges v] initial_within_ranges l
    by blast
qed

subsection \<open>Adjustment with an unknown direction or an invalid index\<close>

lemma arduino_write_log:
  "tx_log (arduino_write frame p) = tx_log p @ [(frame, faults p = [] \<or> \<not> hd (faults p))]"
  by (cases "faults p") (simp_all add: arduino_write_def)

lemma command_total: "length ts = 6 \<Longrightarrow> \<exists>frame. command ts = Inr frame"
  using command_six length_six by metis

lemma send_command_connected:
  assumes "length (motor_targets s) = 6" "arduino s = Some p"
  shows "\<exists>frame. command (motor_targets s) = Inr frame \<and>
           send_command s = s\<lparr>arduino := Some (arduino_write frame p)\<rparr>"
  using command_total [OF assms(1)] assms(2) by (auto simp: send_command_def)

text \<open>
  Claim C10. With a joint index in 0..5 and a direction that is neither \<open>increase\<close> nor
  \<open>decrease\<close>, \<^verbatim>\<open>update_robot_action\<close> returns the state that \<^verbatim>\<open>send_command\<close> gives:
  targets and angles are as before, and with a port present the frame of the unchanged
  targets is handed to \<^verbatim>\<open>write\<close> (logged as sent unless that call raises).
\<close>

theorem unknown_direction_still_sends:
  assumes "0 \<le> i" "i < 6" "length (motor_targets s) = 6"
    and "d \<noteq> Some ''increase''" "d \<noteq> Some ''decrease''"
  shows "update_robot_action a (Some i) d step s = Inr (send_command s) \<and>
     motor_targets (send_command s) = motor_targets s \<and>
     motor_angles (send_command s) = motor_angles s \<and>
     (\<forall>p. arduino s = Some p \<longrightarrow>
        (\<exists>frame. command (motor_targets s) = Inr frame \<and>
           arduino (send_command s) = Some (arduino_write frame p) \<and>
           tx_log (arduino_write frame p) =
             tx_log p @ [(frame, faults p = [] \<or> \<not> hd (faults p))]))"
proof -
  have "adjusted_target (motor_ranges ! nat i) d step (motor_targets s ! nat i) =
      motor_targets s ! nat i"
    using assms(4,5) by (simp add: adjusted_target_def)
  then have "update_robot_action a (Some i) d step s = Inr (send_command s)"
    using update_robot_action_joint [OF assms(1,2,3), of a d step] by simp
  moreover have "\<forall>p. arduino s = Some p \<longrightarrow>
        (\<exists>frame. command (motor_targets s) = Inr frame \<and>
           arduino (send_command s) = Some (arduino_write frame p) \<and>
           tx_log (arduino_write frame p) =
             tx_log p @ [(frame, faults p = [] \<or> \<not> hd (faults p))])"
  proof (intro allI impI)
    fix p assume p: "arduino s = Some p"
    from send_command_connected [OF assms(3) p] obtain frame where
      f: "command (motor_targets s) = Inr frame"
         "send_command s = s\<lparr>arduino := Some (arduino_write frame p)\<rparr>" by blast
    have "arduino (send_command s) = Some (arduino_write frame p)"
      by (simp add: f(2))
    with f(1) arduino_write_log [of frame p]
    show "\<exists>frame. command (motor_targets s) = Inr frame \<and>
           arduino (send_command s) = Some (arduino_write frame p) \<and>
           tx_log (arduino_write frame p) =
             tx_log p @ [(frame, faults p = [] \<or> \<not> hd (faults p))]"
      by blast
  qed
  ultimately show ?thesis by (simp add: send_command_fields)
qed

lemma initial_command:
  "command (motor_targets (initial_state p)) = Inr ''512,512,512,956,800,430*''"
  by (simp add: initial_state_def command_six join_commas_def py_int_def str_int_def str_nat.simps)

theorem unknown_direction_still_sends_witness:
  "update_robot_action ''Motor 3'' (Some 2) (Some ''hold'') 3
      (initial_state (Some \<lparr>tx_log = [], faults = []\<rparr>)) =
     Inr (initial_state (Some \<lparr>tx_log = [(''512,512,512,956,800,430*'', True)], faults = []\<rparr>))"
proof -
  let ?s = "initial_state (Some \<lparr>tx_log = [], faults = []\<rparr>)"
  have len: "length (motor_targets ?s) = 6" by (simp add: initial_state_def)
  have p: "arduino ?s = Some \<lparr>tx_log = [], faults = []\<rparr>" by (simp add: initial_state_def)
  have s: "send_command ?s =
      initial_state (Some \<lparr>tx_log = [(''512,512,512,956,800,430*'', True)], faults = []\<rparr>)"
    using initial_command [of "Some \<lparr>tx_log = [], faults = []\<rparr>"]
    by (simp add: send_command_def arduino_write_def initial_state_def)
  have "update_robot_action ''Motor 3'' (Some 2) (Some ''hold'') 3 ?s = Inr (send_command ?s)"
    using unknown_direction_still_sends [of 2 ?s "Some ''hold''" "''Motor 3''" 3] len by simp
  then show ?thesis by (simp only: s)
qed

lemma py_index_outside:
  "i < - int (length xs) \<or> int (length xs) \<le> i \<Longrightarrow> py_index xs i = Inl IndexError"
  by (auto simp: py_index_def)

lemma py_index_negative:
  "- int (length xs) \<le> i \<Longrightarrow> i < 0 \<Longrightarrow> py_index xs i = py_index xs (i + int (length xs))"
  by (auto simp: py_index_def)

lemma key_mapping_cases:
  assumes "map_of key_mapping key = Some (i, d)"
  shows "0 \<le> i \<and> i < 6 \<and> (d = ''increase'' \<or> d = ''decrease'')"
  using assms by (auto simp: key_mapping_def split: if_splits)

lemma escape_unmapped: "map_of key_mapping K_ESCAPE = None"
  by (simp add: key_mapping_def K_ESCAPE_def K_q_def K_a_def K_w_def K_s_def K_e_def K_d_def
      K_r_def K_f_def K_t_def K_g_def K_y_def K_h_def)

lemma update_robot_action_exit_result:
  "update_robot_action a mi d step s =
     (case update_robot_action_exit a mi d step s of
        (None, s') \<Rightarrow> Inr s'
      | (Some e, s') \<Rightarrow> Inl e)"
  by (auto simp: update_robot_action_def update_robot_action_exit_def ebind_def
      split: option.splits sum.splits prod.splits)

text \<open>
  Claim C9, as the code has it. The function does not validate the index. An index below
  \<open>-6\<close> or above \<open>5\<close> raises \<^verbatim>\<open>IndexError\<close> at the range lookup; the exception leaves the
  function, and the globals at that moment (targets, angles, held keys, schedule, port)
  are those before the call. An index in \<open>-6..-1\<close> is resolved from the end of the lists:
  the call clamps the target of joint \<open>index + 6\<close> and sends the frame, with the same
  result on these globals as the call with \<open>index + 6\<close>. The key table holds the indices
  0..5 only, so the main loop never passes another one.
\<close>

theorem out_of_range_index_behaviour:
  assumes "length (motor_targets s) = 6"
  shows "(i < - 6 \<or> 6 \<le> i \<longrightarrow>
        update_robot_action a (Some i) d step s = Inl IndexError \<and>
        update_robot_action_exit a (Some i) d step s = (Some IndexError, s)) \<and>
     (- 6 \<le> i \<and> i < 0 \<longrightarrow>
        update_robot_action a (Some i) d step s =
          Inr (send_command (s\<lparr>motor_targets := (motor_targets s)
                 [nat (i + 6) := adjusted_target (motor_ranges ! nat (i + 6)) d step
                                   (motor_targets s ! nat (i + 6))]\<rparr>)) \<and>
        update_robot_action a (Some i) d step s = update_robot_action a (Some (i + 6)) d step s) \<and>
     (\<forall>key j dir. map_of key_mapping key = Some (j, dir) \<longrightarrow> 0 \<le> j \<and> j < 6)"
proof (intro conjI impI allI)
  assume "i < - 6 \<or> 6 \<le> i"
  then have "py_index motor_ranges i = Inl IndexError"
    by (intro py_index_outside) (simp add: length_motor_ranges)
  then have r: "py_get motor_ranges i = Inl IndexError" by (simp add: py_get_def ebind_def)
  show "update_robot_action a (Some i) d step s = Inl IndexError"
    by (simp add: update_robot_action_def r ebind_def)
  show "update_robot_action_exit a (Some i) d step s = (Some IndexError, s)"
    by (simp add: update_robot_action_exit_def r)
next
  assume i: "- 6 \<le> i \<and> i < 0"
  then have "py_index motor_ranges i = py_index motor_ranges (i + 6)"
    using py_index_negative [of motor_ranges i] by (simp add: length_motor_ranges)
  then have r: "py_get motor_ranges i = py_get motor_ranges (i + 6)"
    by (simp only: py_get_def)
  have "py_index (motor_targets s) i = py_index (motor_targets s) (i + 6)"
    using i assms py_index_negative [of "motor_targets s" i] by simp
  then have g: "py_get (motor_targets s) i = py_get (motor_targets s) (i + 6)"
    and u: "\<And>v. py_set (motor_targets s) i v = py_set (motor_targets s) (i + 6) v"
    by (simp_all only: py_get_def py_set_def)
  show eq: "update_robot_action a (Some i) d step s = update_robot_action a (Some (i + 6)) d step s"
    by (simp only: update_robot_action_def option.case r g u)
  have "0 \<le> i + 6" "i + 6 < 6" using i by simp_all
  from update_robot_action_joint [OF this assms, of a d step]
  show "update_robot_action a (Some i) d step s =
          Inr (send_command (s\<lparr>motor_targets := (motor_targets s)
                 [nat (i + 6) := adjusted_target (motor_ranges ! nat (i + 6)) d step
                                   (motor_targets s ! nat (i + 6))]\<rparr>))"
    by (simp only: eq)
next
  fix key j dir assume "map_of key_mapping key = Some (j, dir)"
  then show "0 \<le> j" "j < 6" using key_mapping_cases by blast+
qed

theorem out_of_range_index_behaviour_witness:
  "update_robot_action ''Motor 7'' (Some 6) (Some ''increase'') 3 (initial_state None) =
     Inl IndexError \<and>
   update_robot_action_exit ''Motor 7'' (Some 6) (Some ''increase'') 3 (initial_state None) =
     (Some IndexError, initial_state None) \<and>
   update_robot_action ''Motor 0'' (Some (- 1)) (Some ''increase'') 3 (initial_state None) =
     Inr ((initial_state None)\<lparr>motor_targets := [512, 512, 512, 956, 800, 433]\<rparr>) \<and>
   update_robot_action ''Motor 0'' (Some (- 1)) (Some ''increase'') 3 (initial_state None) =
     update_robot_action ''Motor 0'' (Some 5) (Some ''increase'') 3 (initial_state None)"
proof -
  have len: "length (motor_targets (initial_state None)) = 6" by (simp add: initial_state_def)
  have s: "send_command ((initial_state None)\<lparr>motor_targets := ts\<rparr>) =
      (initial_state None)\<lparr>motor_targets := ts\<rparr>" for ts
    by (simp add: send_command_def initial_state_def split: sum.splits)
  have h6: "(6::int) < - 6 \<or> (6::int) \<le> 6" and h1: "- 6 \<le> (- 1::int) \<and> (- 1::int) < 0"
    by simp_all
  from out_of_range_index_behaviour [OF len, of 6 "''Motor 7''" "Some ''increase''" 3] h6
  have a: "update_robot_action ''Motor 7'' (Some 6) (Some ''increase'') 3 (initial_state None) =
     Inl IndexError"
    "update_robot_action_exit ''Motor 7'' (Some 6) (Some ''increase'') 3 (initial_state None) =
     (Some IndexError, initial_state None)"
    by blast+
  from out_of_range_index_behaviour [OF len, of "- 1" "''Motor 0''" "Some ''increase''" 3] h1
  have b: "update_robot_action ''Motor 0'' (Some (- 1)) (Some ''increase'') 3 (initial_state None) =
      Inr (send_command ((initial_state None)\<lparr>motor_targets := (motor_targets (initial_state None))
                 [nat (- 1 + 6) := adjusted_target (motor_ranges ! nat (- 1 + 6)) (Some ''increase'') 3
                                   (motor_targets (initial_state None) ! nat (- 1 + 6))]\<rparr>))"
    "update_robot_action ''Motor 0'' (Some (- 1)) (Some ''increase'') 3 (initial_state None) =
     update_robot_action ''Motor 0'' (Some (- 1 + 6)) (Some ''increase'') 3 (initial_state None)"
    by blast+
  have five: "(- 1 + 6 :: int) = 5" by simp
  have "(motor_targets (initial_state None))
                 [nat (- 1 + 6) := adjusted_target (motor_ranges ! nat (- 1 + 6)) (Some ''increase'') 3
                                   (motor_targets (initial_state None) ! nat (- 1 + 6))] =
      [512, 512, 512, 956, 800, 433]"
    by (simp add: initial_state_def adjusted_target_def motor_ranges_def)
  with b(1) have c: "update_robot_action ''Motor 0'' (Some (- 1)) (Some ''increase'') 3 (initial_state None) =
     Inr ((initial_state None)\<lparr>motor_targets := [512, 512, 512, 956, 800, 433]\<rparr>)"
    by (simp only: s)
  from a c b(2) show ?thesis unfolding five by (intro conjI)
qed

text \<open>
  The claim as stated (an index such as \<open>6\<close> or \<open>-1\<close> is a no-op that keeps the loop
  alive) fails: index \<open>-1\<close> moves the target of joint 5 from 430 to 433, and index \<open>6\<close>
  raises.
\<close>

theorem invalid_index_counterexample:
  "update_robot_action ''Motor 0'' (Some (- 1)) (Some ''increase'') 3 (initial_state None) =
     Inr ((initial_state None)\<lparr>motor_targets := [512, 512, 512, 956, 800, 433]\<rparr>) \<and>
   (initial_state None)\<lparr>motor_targets := [512, 512, 512, 956, 800, 433]\<rparr> \<noteq> initial_state None \<and>
   update_robot_action ''Motor 7'' (Some 6) (Some ''increase'') 3 (initial_state None) =
     Inl IndexError"
  by (simp add: update_robot_action_def py_get_def py_set_def py_index_def ebind_def
      motor_ranges_def initial_state_def send_command_def command_def)

subsection \<open>Key events and the repeat pass\<close>

text \<open>
  Claim C8. A key-down for an unmapped key, or for a mapped key that is already held,
  returns the state unchanged: no adjustment, no frame, the same held keys and the same
  scheduled times. The one unmapped key with an effect is Escape, which only clears
  \<open>running\<close>.
\<close>

theorem ignored_key_down:
  assumes "map_of key_mapping key = None \<or> map_of (keys_pressed s) key \<noteq> None"
  shows "handle_event now (KEYDOWN key) s =
           Inr (if key = K_ESCAPE then s\<lparr>running := False\<rparr> else s)"
  using assms by auto

theorem ignored_key_down_witness:
  "handle_event 16 (KEYDOWN K_q)
     ((initial_state None)\<lparr>keys_pressed := [(K_q, True)], last_command_time := [(K_q, 50)]\<rparr>) =
     Inr ((initial_state None)\<lparr>keys_pressed := [(K_q, True)], last_command_time := [(K_q, 50)]\<rparr>) \<and>
   handle_event 16 (KEYDOWN 120) (initial_state None) = Inr (initial_state None)"
proof -
  let ?s = "(initial_state None)\<lparr>keys_pressed := [(K_q, True)], last_command_time := [(K_q, 50)]\<rparr>"
  have held: "map_of key_mapping K_q = None \<or> map_of (keys_pressed ?s) K_q \<noteq> None"
    by simp
  have unmapped: "map_of key_mapping 120 = None \<or> map_of (keys_pressed (initial_state None)) 120 \<noteq> None"
    by (simp add: key_mapping_def K_q_def K_a_def K_w_def K_s_def K_e_def K_d_def
      K_r_def K_f_def K_t_def K_g_def K_y_def K_h_def)
  have e1: "K_q \<noteq> K_ESCAPE" and e2: "120 \<noteq> K_ESCAPE"
    by (simp_all add: K_q_def K_ESCAPE_def)
  from ignored_key_down [OF held, of 16] ignored_key_down [OF unmapped, of 16] e1 e2
  show ?thesis by (simp del: handle_event.simps)
qed

lemma ebind_Inr [simp]: "ebind (Inr x) f = f x"
  by (simp add: ebind_def)

lemma ebind_Inl [simp]: "ebind (Inl e) f = Inl e"
  by (simp add: ebind_def)

lemma ebind_cong_result:
  "(\<And>x. r = Inr x \<Longrightarrow> f x = g x) \<Longrightarrow> ebind r f = ebind r g"
  by (cases r) simp_all

lemma update_robot_action_result:
  assumes "update_robot_action a (Some i) d step s = Inr s'"
  shows "\<exists>ts. length ts = length (motor_targets s) \<and> s' = send_command (s\<lparr>motor_targets := ts\<rparr>)"
proof -
  have id: "s = s\<lparr>motor_targets := motor_targets s\<rparr>" by simp
  from assms show ?thesis
    unfolding update_robot_action_def py_get_def py_set_def
    apply (simp add: ebind_def split: sum.splits prod.splits if_splits)
      apply (metis length_list_update)
     apply (metis length_list_update)
    apply (metis id)
    done
qed

lemma update_robot_action_frame:
  assumes "update_robot_action a (Some i) d step s = Inr s'"
  shows "keys_pressed s' = keys_pressed s" "last_command_time s' = last_command_time s"
    "running s' = running s" "motor_angles s' = motor_angles s"
    "length (motor_targets s') = length (motor_targets s)"
    "fire_time s' = fire_time s"
  using update_robot_action_result [OF assms]
  by (auto simp: send_command_fields fire_time_def fun_eq_iff)

lemma fire_time_set_fire_time:
  "fire_time (set_fire_time key t s) k = (if k = key then t else fire_time s k)"
  by (simp add: fire_time_def set_fire_time_def update_conv')

lemma set_fire_time_fields:
  "motor_targets (set_fire_time key t s) = motor_targets s"
  "motor_angles (set_fire_time key t s) = motor_angles s"
  "keys_pressed (set_fire_time key t s) = keys_pressed s"
  "running (set_fire_time key t s) = running s"
  "arduino (set_fire_time key t s) = arduino s"
  by (simp_all add: set_fire_time_def)

lemma repeat_keys_fire_keys:
  assumes "distinct keys"
  shows "repeat_keys now keys s = fire_keys now (filter (is_due now s) keys) s"
  using assms
proof (induction keys arbitrary: s)
  case Nil
  then show ?case by simp
next
  case (Cons key keys)
  have d: "distinct keys" and notin: "key \<notin> set keys" using Cons.prems by simp_all
  show ?case
  proof (cases "is_due now s key")
    case False
    then have "repeat_keys now (key # keys) s = repeat_keys now keys s"
      by (auto simp: is_due_def split: option.splits)
    then show ?thesis using False Cons.IH [OF d] by simp
  next
    case True
    then obtain i dir where m: "map_of key_mapping key = Some (i, dir)"
      and t: "now \<ge> fire_time s key"
      by (auto simp: is_due_def)
    let ?act = "update_robot_action (motor_label i) (Some i) (Some dir) FAST_STEP_SIZE s"
    have "repeat_keys now keys (set_fire_time key (now + KEY_REPEAT_INTERVAL) s') =
          fire_keys now (filter (is_due now s) keys)
            (set_fire_time key (now + KEY_REPEAT_INTERVAL) s')"
      if "?act = Inr s'" for s'
    proof -
      let ?s1 = "set_fire_time key (now + KEY_REPEAT_INTERVAL) s'"
      have "is_due now ?s1 k = is_due now s k" if "k \<in> set keys" for k
        using that notin update_robot_action_frame(6) [OF \<open>?act = Inr s'\<close>]
        by (auto simp: is_due_def fire_time_set_fire_time)
      then have "filter (is_due now ?s1) keys = filter (is_due now s) keys"
        by (intro filter_cong) simp_all
      then show ?thesis using Cons.IH [OF d, of ?s1] by simp
    qed
    then have "ebind ?act (\<lambda>s'. repeat_keys now keys
                  (set_fire_time key (now + KEY_REPEAT_INTERVAL) s')) =
          ebind ?act (\<lambda>s'. fire_keys now (filter (is_due now s) keys)
                  (set_fire_time key (now + KEY_REPEAT_INTERVAL) s'))"
      by (rule ebind_cong_result)
    then show ?thesis using True m t by simp
  qed
qed

lemma intent_applies:
  assumes len: "length (motor_targets s) = 6" and m: "map_of key_mapping key = Some (i, d)"
  shows "\<exists>s'. update_robot_action (motor_label i) (Some i) (Some d) FAST_STEP_SIZE s = Inr s' \<and>
     s' = send_command (s\<lparr>motor_targets := (motor_targets s)
            [nat i := adjusted_target (motor_ranges ! nat i) (Some d) FAST_STEP_SIZE
                        (motor_targets s ! nat i)]\<rparr>) \<and>
     length (motor_targets s') = 6"
  using key_mapping_cases [OF m] update_robot_action_joint [of i s _ "Some d" FAST_STEP_SIZE] len
  by (simp add: send_command_fields)

lemma held_iff: "key \<in> set (map fst (keys_pressed s)) \<longleftrightarrow> map_of (keys_pressed s) key \<noteq> None"
  by (simp add: map_of_eq_None_iff)


lemma key_down_ignored:
  assumes "map_of key_mapping key = None \<or> key \<in> set (map fst (keys_pressed s))"
  shows "handle_event now (KEYDOWN key) s =
           Inr (if key = K_ESCAPE then s\<lparr>running := False\<rparr> else s)"
  using assms held_iff [of key s] by auto

lemma command_encode: "length ts = 6 \<Longrightarrow> command ts = Inr (encode_frame ts)"
  using command_six length_six unfolding encode_frame_def by metis

lemma send_command_port:
  assumes "length (motor_targets s) = 6"
  shows "send_command s =
     s\<lparr>arduino := map_option (arduino_write (encode_frame (motor_targets s))) (arduino s)\<rparr>"
  using command_encode [OF assms]
  by (cases "arduino s") (simp_all add: send_command_def)

lemma length_apply_intent [simp]: "length (apply_intent intent ts) = length ts"
  by (simp add: apply_intent_def)

lemma intent_effect:
  assumes len: "length (motor_targets s) = 6" and m: "map_of key_mapping key = Some (i, d)"
  shows "update_robot_action (motor_label i) (Some i) (Some d) FAST_STEP_SIZE s =
     Inr (s\<lparr>motor_targets := apply_intent (i, d) (motor_targets s),
            arduino := map_option
              (arduino_write (encode_frame (apply_intent (i, d) (motor_targets s))))
              (arduino s)\<rparr>)"
proof -
  let ?s0 = "s\<lparr>motor_targets := apply_intent (i, d) (motor_targets s)\<rparr>"
  have "length (motor_targets ?s0) = 6" using len by simp
  from send_command_port [OF this]
  have "send_command ?s0 = ?s0\<lparr>arduino := map_option
              (arduino_write (encode_frame (apply_intent (i, d) (motor_targets s))))
              (arduino s)\<rparr>"
    by simp
  moreover have "update_robot_action (motor_label i) (Some i) (Some d) FAST_STEP_SIZE s =
      Inr (send_command ?s0)"
    using intent_applies [OF len m] by (simp add: apply_intent_def)
  ultimately show ?thesis by simp
qed

lemma length_frames_for [simp]: "length (frames_for intents ts) = length intents"
  by (induction intents arbitrary: ts) simp_all

lemma length_targets_after [simp]: "length (targets_after intents ts) = length ts"
  by (induction intents arbitrary: ts) simp_all

lemma key_intents_Cons:
  "map_of key_mapping key = Some m \<Longrightarrow> key_intents (key # keys) = m # key_intents keys"
  by (simp add: key_intents_def map_filter_simps)

lemma key_intents_Nil [simp]: "key_intents [] = []"
  by (simp add: key_intents_def map_filter_simps)


lemma map_option_write_all:
  "map_option (write_all frames) (map_option (arduino_write frame) q) =
     map_option (write_all (frame # frames)) q"
  by (cases q) simp_all


lemma fire_keys_effect:
  assumes "length (motor_targets s) = 6" "\<forall>k \<in> set keys. map_of key_mapping k \<noteq> None"
  shows "\<exists>s'. fire_keys now keys s = Inr s' \<and>
     motor_targets s' = targets_after (key_intents keys) (motor_targets s) \<and>
     arduino s' = map_option (write_all (frames_for (key_intents keys) (motor_targets s)))
                    (arduino s) \<and>
     keys_pressed s' = keys_pressed s \<and> motor_angles s' = motor_angles s \<and>
     running s' = running s \<and>
     (\<forall>k. fire_time s' k =
        (if k \<in> set keys then now + KEY_REPEAT_INTERVAL else fire_time s k))"
  using assms
proof (induction keys arbitrary: s)
  case Nil
  then show ?case by (cases "arduino s") simp_all
next
  case (Cons key keys)
  obtain i d where m: "map_of key_mapping key = Some (i, d)"
    using Cons.prems(2) by auto
  let ?ts = "apply_intent (i, d) (motor_targets s)"
  let ?s1 = "s\<lparr>motor_targets := ?ts,
            arduino := map_option (arduino_write (encode_frame ?ts)) (arduino s)\<rparr>"
  have s1: "update_robot_action (motor_label i) (Some i) (Some d) FAST_STEP_SIZE s = Inr ?s1"
    using Cons.prems(1) m by (rule intent_effect)
  let ?s2 = "set_fire_time key (now + KEY_REPEAT_INTERVAL) ?s1"
  have len2: "length (motor_targets ?s2) = 6"
    using Cons.prems(1) by (simp add: set_fire_time_fields)
  have "\<forall>k \<in> set keys. map_of key_mapping k \<noteq> None" using Cons.prems(2) by simp
  from Cons.IH [OF len2 this] obtain s' where
    run: "fire_keys now keys ?s2 = Inr s'" and
    r: "motor_targets s' = targets_after (key_intents keys) (motor_targets ?s2)"
       "arduino s' = map_option (write_all (frames_for (key_intents keys) (motor_targets ?s2)))
                    (arduino ?s2)"
       "keys_pressed s' = keys_pressed ?s2"
       "motor_angles s' = motor_angles ?s2" "running s' = running ?s2"
       "\<forall>k. fire_time s' k = (if k \<in> set keys then now + KEY_REPEAT_INTERVAL else fire_time ?s2 k)"
    by blast
  have ft: "fire_time ?s1 = fire_time s" by (simp add: fire_time_def fun_eq_iff)
  have "fire_keys now (key # keys) s = Inr s'"
    using m s1 run by simp
  moreover have "motor_targets s' = targets_after (key_intents (key # keys)) (motor_targets s)"
    using r(1) by (simp add: key_intents_Cons [OF m] set_fire_time_fields)
  moreover have "arduino s' =
      map_option (write_all (frames_for (key_intents (key # keys)) (motor_targets s))) (arduino s)"
    using r(2) by (simp add: key_intents_Cons [OF m] set_fire_time_fields map_option_write_all)
  moreover have "\<forall>k. fire_time s' k =
        (if k \<in> set (key # keys) then now + KEY_REPEAT_INTERVAL else fire_time s k)"
    using r(6) ft by (simp add: fire_time_set_fire_time)
  ultimately show ?case
    using r(3-5) by (simp add: set_fire_time_fields)
qed

lemma update_fresh: "k \<notin> fst ` set al \<Longrightarrow> AList.update k v al = al @ [(k, v)]"
  by (induction al) auto

lemma key_down_effect:
  assumes st: "steady s" and m: "map_of key_mapping key = Some (i, d)"
    and free: "key \<notin> set (map fst (keys_pressed s))"
  shows "handle_event now (KEYDOWN key) s =
     Inr (s\<lparr>motor_targets := apply_intent (i, d) (motor_targets s),
            keys_pressed := keys_pressed s @ [(key, True)],
            last_command_time :=
              AList.update key (now + KEY_REPEAT_DELAY) (last_command_time s),
            arduino := map_option
              (arduino_write (encode_frame (apply_intent (i, d) (motor_targets s))))
              (arduino s)\<rparr>)"
proof -
  have esc: "key \<noteq> K_ESCAPE" using m escape_unmapped by auto
  have none: "map_of (keys_pressed s) key = None" using free held_iff [of key s] by simp
  have app: "AList.update key True (keys_pressed s) = keys_pressed s @ [(key, True)]"
    using free by (intro update_fresh) simp
  let ?s0 = "s\<lparr>keys_pressed := AList.update key True (keys_pressed s)\<rparr>"
  have len0: "length (motor_targets ?s0) = 6" using st by (simp add: steady_def)
  show ?thesis
    using esc m none intent_effect [OF len0 m] app
    by (simp add: set_fire_time_def)
qed

lemma handle_event_effect:
  assumes st: "steady s"
  shows "\<exists>s'. handle_event now ev s = Inr s' \<and> steady s' \<and>
     motor_angles s' = motor_angles s \<and>
     targets_after (key_intents (accepted_keys evs (map fst (keys_pressed s'))))
        (motor_targets s') =
     targets_after (key_intents (accepted_keys (ev # evs) (map fst (keys_pressed s))))
        (motor_targets s) \<and>
     map_option (write_all (frames_for
          (key_intents (accepted_keys evs (map fst (keys_pressed s')))) (motor_targets s')))
        (arduino s') =
     map_option (write_all (frames_for
          (key_intents (accepted_keys (ev # evs) (map fst (keys_pressed s)))) (motor_targets s)))
        (arduino s)"
proof (cases ev)
  case QUIT
  then show ?thesis using st by (simp add: steady_def)
next
  case OTHER
  then show ?thesis using st by simp
next
  case (KEYUP key)
  have "map fst (if map_of (keys_pressed s) key \<noteq> None
          then AList.delete key (keys_pressed s) else keys_pressed s) =
        removeAll key (map fst (keys_pressed s))"
    using held_iff [of key s] by (simp add: delete_keys)
  then show ?thesis using st KEYUP by (simp add: steady_def distinct_removeAll)
next
  case (KEYDOWN key)
  show ?thesis
  proof (cases "map_of key_mapping key \<noteq> None \<and> key \<notin> set (map fst (keys_pressed s))")
    case True
    then obtain i d where m: "map_of key_mapping key = Some (i, d)" by auto
    have free: "key \<notin> set (map fst (keys_pressed s))" using True by simp
    let ?ts = "apply_intent (i, d) (motor_targets s)"
    let ?s' = "s\<lparr>motor_targets := ?ts,
            keys_pressed := keys_pressed s @ [(key, True)],
            last_command_time :=
              AList.update key (now + KEY_REPEAT_DELAY) (last_command_time s),
            arduino := map_option (arduino_write (encode_frame ?ts)) (arduino s)\<rparr>"
    have ev: "handle_event now (KEYDOWN key) s = Inr ?s'"
      using st m free by (rule key_down_effect)
    have acc: "accepted_keys (KEYDOWN key # evs) (map fst (keys_pressed s)) =
        key # accepted_keys evs (map fst (keys_pressed s) @ [key])"
      using True by simp
    have "steady ?s'" using st free by (simp add: steady_def)
    moreover have "motor_angles ?s' = motor_angles s" by simp
    moreover have "targets_after (key_intents (accepted_keys evs (map fst (keys_pressed ?s'))))
        (motor_targets ?s') =
      targets_after (key_intents (accepted_keys (KEYDOWN key # evs) (map fst (keys_pressed s))))
        (motor_targets s)"
      unfolding acc key_intents_Cons [OF m] by simp
    moreover have "map_option (write_all (frames_for
          (key_intents (accepted_keys evs (map fst (keys_pressed ?s')))) (motor_targets ?s')))
        (arduino ?s') =
      map_option (write_all (frames_for
          (key_intents (accepted_keys (KEYDOWN key # evs) (map fst (keys_pressed s))))
          (motor_targets s))) (arduino s)"
      unfolding acc key_intents_Cons [OF m] by (simp add: map_option_write_all)
    ultimately show ?thesis unfolding KEYDOWN ev by blast
  next
    case False
    then have ev: "handle_event now (KEYDOWN key) s =
           Inr (if key = K_ESCAPE then s\<lparr>running := False\<rparr> else s)"
      by (intro key_down_ignored) auto
    let ?s' = "if key = K_ESCAPE then s\<lparr>running := False\<rparr> else s"
    have k: "keys_pressed ?s' = keys_pressed s" "motor_targets ?s' = motor_targets s"
      "arduino ?s' = arduino s" "motor_angles ?s' = motor_angles s" by simp_all
    have "steady ?s'" using st by (simp add: steady_def)
    moreover have "accepted_keys (KEYDOWN key # evs) (map fst (keys_pressed s)) =
        accepted_keys evs (map fst (keys_pressed s))"
      using False by auto
    ultimately show ?thesis unfolding KEYDOWN ev using k by (simp del: handle_event.simps)
  qed
qed

lemma handle_events_effect:
  assumes "steady s"
  shows "\<exists>s'. handle_events now evs s = Inr s' \<and> steady s' \<and>
     motor_angles s' = motor_angles s \<and>
     motor_targets s' =
       targets_after (key_intents (accepted_keys evs (map fst (keys_pressed s)))) (motor_targets s) \<and>
     arduino s' =
       map_option (write_all (frames_for
          (key_intents (accepted_keys evs (map fst (keys_pressed s)))) (motor_targets s)))
        (arduino s)"
  using assms
proof (induction evs arbitrary: s)
  case Nil
  then show ?case by (cases "arduino s") simp_all
next
  case (Cons ev evs)
  from handle_event_effect [OF Cons.prems, of now ev evs] obtain s1 where
    s1: "handle_event now ev s = Inr s1" "steady s1" "motor_angles s1 = motor_angles s"
     "targets_after (key_intents (accepted_keys evs (map fst (keys_pressed s1))))
        (motor_targets s1) =
      targets_after (key_intents (accepted_keys (ev # evs) (map fst (keys_pressed s))))
        (motor_targets s)"
     "map_option (write_all (frames_for
          (key_intents (accepted_keys evs (map fst (keys_pressed s1)))) (motor_targets s1)))
        (arduino s1) =
      map_option (write_all (frames_for
          (key_intents (accepted_keys (ev # evs) (map fst (keys_pressed s)))) (motor_targets s)))
        (arduino s)"
    by blast
  from Cons.IH [OF s1(2)] obtain s' where
    s': "handle_events now evs s1 = Inr s'" "steady s'" "motor_angles s' = motor_angles s1"
      "motor_targets s' =
       targets_after (key_intents (accepted_keys evs (map fst (keys_pressed s1)))) (motor_targets s1)"
      "arduino s' =
       map_option (write_all (frames_for
          (key_intents (accepted_keys evs (map fst (keys_pressed s1)))) (motor_targets s1)))
        (arduino s1)"
    by blast
  have "handle_events now (ev # evs) s = Inr s'" using s1(1) s'(1) by simp
  then show ?case using s1(3,4,5) s'(2,3,4,5) by simp
qed

lemma repeat_pass_effect:
  assumes st: "steady s"
  shows "\<exists>s'. repeat_keys now (map fst (keys_pressed s)) s = Inr s' \<and>
     fire_keys now (due_keys now s) s = Inr s' \<and> steady s' \<and>
     motor_targets s' = targets_after (key_intents (due_keys now s)) (motor_targets s) \<and>
     arduino s' = map_option (write_all (frames_for (key_intents (due_keys now s))
                    (motor_targets s))) (arduino s) \<and>
     keys_pressed s' = keys_pressed s \<and> motor_angles s' = motor_angles s \<and>
     running s' = running s \<and>
     (\<forall>k. fire_time s' k =
        (if k \<in> set (due_keys now s) then now + KEY_REPEAT_INTERVAL else fire_time s k))"
proof -
  have len: "length (motor_targets s) = 6" and dist: "distinct (map fst (keys_pressed s))"
    using st by (simp_all add: steady_def)
  have eq: "repeat_keys now (map fst (keys_pressed s)) s = fire_keys now (due_keys now s) s"
    unfolding due_keys_def using dist by (rule repeat_keys_fire_keys)
  have "\<forall>k \<in> set (due_keys now s). map_of key_mapping k \<noteq> None"
    by (simp add: due_keys_def is_due_def)
  from fire_keys_effect [OF len this, of now] obtain s' where
    r: "fire_keys now (due_keys now s) s = Inr s'"
       "motor_targets s' = targets_after (key_intents (due_keys now s)) (motor_targets s)"
       "arduino s' = map_option (write_all (frames_for (key_intents (due_keys now s))
                    (motor_targets s))) (arduino s)"
       "keys_pressed s' = keys_pressed s" "motor_angles s' = motor_angles s"
       "running s' = running s"
       "\<forall>k. fire_time s' k =
        (if k \<in> set (due_keys now s) then now + KEY_REPEAT_INTERVAL else fire_time s k)"
    by blast
  have "steady s'" using st r(2,4,5) by (simp add: steady_def)
  with eq r show ?thesis by simp
qed

lemma smoothing_effect:
  assumes st: "steady s"
  shows "\<exists>s'. update_motor_angles s = Inr s' \<and> steady s' \<and>
     motor_targets s' = motor_targets s \<and> arduino s' = arduino s \<and>
     keys_pressed s' = keys_pressed s \<and> fire_time s' = fire_time s \<and>
     running s' = running s \<and>
     motor_angles s' = map2 smoothing_rule (motor_targets s) (motor_angles s)"
proof -
  have "length (motor_angles s) = length (motor_targets s)" using st by (simp add: steady_def)
  from update_motor_angles_eq [OF this] st show ?thesis
    by (simp add: steady_def fire_time_def fun_eq_iff)
qed

lemma tick_effect:
  assumes "steady s"
  shows "\<exists>s1 s2 s3. handle_events now evs s = Inr s1 \<and>
     repeat_keys now (map fst (keys_pressed s1)) s1 = Inr s2 \<and>
     fire_keys now (due_keys now s1) s1 = Inr s2 \<and>
     update_motor_angles s2 = Inr s3 \<and> tick now evs s = Inr s3 \<and> steady s3 \<and>
     motor_targets s1 =
       targets_after (key_intents (accepted_keys evs (map fst (keys_pressed s)))) (motor_targets s) \<and>
     arduino s1 =
       map_option (write_all (frames_for
          (key_intents (accepted_keys evs (map fst (keys_pressed s)))) (motor_targets s)))
        (arduino s) \<and>
     motor_targets s2 = targets_after (key_intents (due_keys now s1)) (motor_targets s1) \<and>
     arduino s2 = map_option (write_all (frames_for (key_intents (due_keys now s1))
                    (motor_targets s1))) (arduino s1) \<and>
     motor_targets s3 = motor_targets s2 \<and> arduino s3 = arduino s2 \<and>
     keys_pressed s3 = keys_pressed s1 \<and>
     (\<forall>k. fire_time s3 k =
        (if k \<in> set (due_keys now s1) then now + KEY_REPEAT_INTERVAL else fire_time s1 k))"
proof -
  from handle_events_effect [OF assms, of now evs] obtain s1 where
    s1: "handle_events now evs s = Inr s1" "steady s1"
      "motor_targets s1 =
       targets_after (key_intents (accepted_keys evs (map fst (keys_pressed s)))) (motor_targets s)"
      "arduino s1 =
       map_option (write_all (frames_for
          (key_intents (accepted_keys evs (map fst (keys_pressed s)))) (motor_targets s)))
        (arduino s)"
    by blast
  from repeat_pass_effect [OF s1(2), of now] obtain s2 where
    s2: "repeat_keys now (map fst (keys_pressed s1)) s1 = Inr s2"
      "fire_keys now (due_keys now s1) s1 = Inr s2" "steady s2"
      "motor_targets s2 = targets_after (key_intents (due_keys now s1)) (motor_targets s1)"
      "arduino s2 = map_option (write_all (frames_for (key_intents (due_keys now s1))
                    (motor_targets s1))) (arduino s1)"
      "keys_pressed s2 = keys_pressed s1"
      "\<forall>k. fire_time s2 k =
        (if k \<in> set (due_keys now s1) then now + KEY_REPEAT_INTERVAL else fire_time s1 k)"
    by blast
  from smoothing_effect [OF s2(3)] obtain s3 where
    s3: "update_motor_angles s2 = Inr s3" "steady s3" "motor_targets s3 = motor_targets s2"
      "arduino s3 = arduino s2" "keys_pressed s3 = keys_pressed s2" "fire_time s3 = fire_time s2"
    by blast
  have t: "tick now evs s = Inr s3" using s1(1) s2(1) s3(1) by (simp add: tick_def)
  have k: "keys_pressed s3 = keys_pressed s1" using s3(5) s2(6) by simp
  have f: "\<forall>k. fire_time s3 k =
        (if k \<in> set (due_keys now s1) then now + KEY_REPEAT_INTERVAL else fire_time s1 k)"
    using s2(7) s3(6) by simp
  from s1(1,3,4) s2(1,2,4,5) s3(1,2,3,4) t k f show ?thesis by blast
qed

lemma initial_steady: "steady (initial_state p)"
  by (simp add: steady_def initial_state_def)





subsection \<open>Frames per tick and transport faults\<close>

lemma forget_port_fields [simp]:
  "motor_targets (forget_port s) = motor_targets s"
  "motor_angles (forget_port s) = motor_angles s"
  "keys_pressed (forget_port s) = keys_pressed s"
  "last_command_time (forget_port s) = last_command_time s"
  "running (forget_port s) = running s"
  "arduino (forget_port s) = None"
  by (simp_all add: forget_port_def)

lemma forget_port_updates [simp]:
  "forget_port (s\<lparr>motor_targets := ts\<rparr>) = (forget_port s)\<lparr>motor_targets := ts\<rparr>"
  "forget_port (s\<lparr>motor_angles := as\<rparr>) = (forget_port s)\<lparr>motor_angles := as\<rparr>"
  "forget_port (s\<lparr>keys_pressed := ks\<rparr>) = (forget_port s)\<lparr>keys_pressed := ks\<rparr>"
  "forget_port (s\<lparr>last_command_time := ls\<rparr>) = (forget_port s)\<lparr>last_command_time := ls\<rparr>"
  "forget_port (s\<lparr>running := r\<rparr>) = (forget_port s)\<lparr>running := r\<rparr>"
  "forget_port (s\<lparr>arduino := q\<rparr>) = forget_port s"
  by (simp_all add: forget_port_def)

lemma forget_port_send_command [simp]:
  "forget_port (send_command s) = forget_port s"
  "send_command (forget_port s) = forget_port s"
  by (simp_all add: send_command_def forget_port_def split: sum.splits option.splits)

lemma send_command_no_port [simp]: "arduino s = None \<Longrightarrow> send_command s = s"
  by (simp add: send_command_def split: sum.splits)

lemma forget_port_set_fire_time [simp]:
  "forget_port (set_fire_time key t s) = set_fire_time key t (forget_port s)"
  by (simp add: set_fire_time_def)

lemma fire_time_forget_port [simp]: "fire_time (forget_port s) = fire_time s"
  by (simp add: fire_time_def fun_eq_iff)

lemma map_sum_ebind:
  assumes "\<And>x. g' (f x) = map_sum (\<lambda>e. e) f (g x)"
  shows "ebind (map_sum (\<lambda>e. e) f r) g' = map_sum (\<lambda>e. e) f (ebind r g)"
  using assms by (cases r) simp_all

lemma update_robot_action_forget_port:
  "update_robot_action a mi d step (forget_port s) =
     map_sum (\<lambda>e. e) forget_port (update_robot_action a mi d step s)"
proof (cases mi)
  case None
  then show ?thesis by (simp add: update_robot_action_def)
next
  case (Some i)
  show ?thesis
  proof (cases "py_get motor_ranges i")
    case (Inl e)
    then show ?thesis using Some by (simp add: update_robot_action_def)
  next
    case (Inr r)
    obtain lo hi where r: "r = (lo, hi)" by (cases r)
    show ?thesis
      using Some Inr r
      by (cases "py_get (motor_targets s) i")
        (auto simp: update_robot_action_def py_set_def ebind_def split: sum.splits)
  qed
qed

lemma handle_event_forget_port:
  "handle_event now ev (forget_port s) = map_sum (\<lambda>e. e) forget_port (handle_event now ev s)"
proof (cases ev)
  case (KEYDOWN key)
  show ?thesis
  proof (cases "key \<noteq> K_ESCAPE \<and> map_of key_mapping key \<noteq> None \<and> map_of (keys_pressed s) key = None")
    case True
    then obtain i d where m: "map_of key_mapping key = Some (i, d)" by auto
    let ?s0 = "s\<lparr>keys_pressed := AList.update key True (keys_pressed s)\<rparr>"
    have "update_robot_action (motor_label i) (Some i) (Some d) FAST_STEP_SIZE (forget_port ?s0) =
        map_sum (\<lambda>e. e) forget_port
          (update_robot_action (motor_label i) (Some i) (Some d) FAST_STEP_SIZE ?s0)"
      by (rule update_robot_action_forget_port)
    then show ?thesis using True m KEYDOWN
      by (cases "update_robot_action (motor_label i) (Some i) (Some d) FAST_STEP_SIZE ?s0")
        simp_all
  next
    case False
    then show ?thesis using KEYDOWN by auto
  qed
qed simp_all

lemma handle_events_forget_port:
  "handle_events now evs (forget_port s) = map_sum (\<lambda>e. e) forget_port (handle_events now evs s)"
proof (induction evs arbitrary: s)
  case Nil
  then show ?case by simp
next
  case (Cons ev evs)
  show ?case
    using map_sum_ebind [of "handle_events now evs" forget_port "handle_events now evs"
        "handle_event now ev s", OF Cons.IH]
    by (simp add: handle_event_forget_port)
qed

lemma repeat_keys_forget_port:
  "repeat_keys now keys (forget_port s) = map_sum (\<lambda>e. e) forget_port (repeat_keys now keys s)"
proof (induction keys arbitrary: s)
  case Nil
  then show ?case by simp
next
  case (Cons key keys)
  show ?case
  proof (cases "map_of key_mapping key")
    case None
    then show ?thesis using Cons.IH by simp
  next
    case (Some m)
    obtain i d where m: "m = (i, d)" by (cases m)
    let ?next = "\<lambda>s'. repeat_keys now keys (set_fire_time key (now + KEY_REPEAT_INTERVAL) s')"
    have "?next (forget_port x) = map_sum (\<lambda>e. e) forget_port (?next x)" for x
      using Cons.IH [of "set_fire_time key (now + KEY_REPEAT_INTERVAL) x"] by simp
    then have "ebind (map_sum (\<lambda>e. e) forget_port
          (update_robot_action (motor_label i) (Some i) (Some d) FAST_STEP_SIZE s)) ?next =
        map_sum (\<lambda>e. e) forget_port
          (ebind (update_robot_action (motor_label i) (Some i) (Some d) FAST_STEP_SIZE s) ?next)"
      by (rule map_sum_ebind)
    then show ?thesis
      using Some m Cons.IH by (simp add: update_robot_action_forget_port)
  qed
qed

lemma smooth_joint_forget_port:
  "smooth_joint i (forget_port s) = map_sum (\<lambda>e. e) forget_port (smooth_joint i s)"
  by (cases "py_get (motor_targets s) (int i)"; cases "py_get (motor_angles s) (int i)")
    (auto simp: smooth_joint_def py_set_def ebind_def Let_def split: sum.splits)

lemma update_motor_angles_loop_forget_port:
  "update_motor_angles_loop js (forget_port s) =
     map_sum (\<lambda>e. e) forget_port (update_motor_angles_loop js s)"
proof (induction js arbitrary: s)
  case Nil
  then show ?case by simp
next
  case (Cons j js)
  show ?case
    using map_sum_ebind [of "update_motor_angles_loop js" forget_port
        "update_motor_angles_loop js" "smooth_joint j s", OF Cons.IH]
    by (simp add: smooth_joint_forget_port)
qed

lemma update_motor_angles_forget_port:
  "update_motor_angles (forget_port s) = map_sum (\<lambda>e. e) forget_port (update_motor_angles s)"
  by (simp add: update_motor_angles_def update_motor_angles_loop_forget_port)

lemma tick_forget_port:
  "tick now evs (forget_port s) = map_sum (\<lambda>e. e) forget_port (tick now evs s)"
proof -
  let ?rest = "\<lambda>s1. ebind (repeat_keys now (map fst (keys_pressed s1)) s1) update_motor_angles"
  have "?rest (forget_port x) = map_sum (\<lambda>e. e) forget_port (?rest x)" for x
    using map_sum_ebind [of update_motor_angles forget_port update_motor_angles
        "repeat_keys now (map fst (keys_pressed x)) x"]
    by (simp add: repeat_keys_forget_port update_motor_angles_forget_port)
  then have "ebind (map_sum (\<lambda>e. e) forget_port (handle_events now evs s)) ?rest =
      map_sum (\<lambda>e. e) forget_port (ebind (handle_events now evs s) ?rest)"
    by (rule map_sum_ebind)
  then show ?thesis by (simp add: tick_def handle_events_forget_port)
qed

lemma main_loop_forget_port:
  "main_loop frames (forget_port s) = map_sum (\<lambda>e. e) forget_port (main_loop frames s)"
proof (induction frames arbitrary: s)
  case Nil
  then show ?case by simp
next
  case (Cons fr frames)
  obtain now evs where fr: "fr = (now, evs)" by (cases fr)
  show ?case
    using map_sum_ebind [of "main_loop frames" forget_port "main_loop frames" "tick now evs s",
        OF Cons.IH]
    by (simp add: fr tick_forget_port)
qed

lemma main_loop_steady:
  assumes "steady s"
  shows "\<exists>s'. main_loop frames s = Inr s' \<and> steady s'"
  using assms
proof (induction frames arbitrary: s)
  case Nil
  then show ?case by simp
next
  case (Cons fr frames)
  obtain now evs where fr: "fr = (now, evs)" by (cases fr)
  show ?case
  proof (cases "running s")
    case True
    from tick_effect [OF Cons.prems, of now evs] obtain s3 where
      "tick now evs s = Inr s3" "steady s3" by blast
    then show ?thesis using Cons.IH [of s3] True fr by simp
  next
    case False
    then show ?thesis using Cons.prems fr by simp
  qed
qed




text \<open>
  Claim C7. No transport failure reaches the loop: from a steady state, a run of the main
  loop over any frames returns, and the run with any other port (any fault schedule, or no
  port at all) returns a state with the same targets, angles, held keys, scheduled times
  and running flag; the two final states differ in the port only.
\<close>

theorem transport_fault_isolation:
  assumes "steady s"
  shows "\<exists>s1 s2. main_loop frames s = Inr s1 \<and>
     main_loop frames (s\<lparr>arduino := q\<rparr>) = Inr s2 \<and>
     forget_port s2 = forget_port s1 \<and>
     motor_targets s2 = motor_targets s1 \<and> motor_angles s2 = motor_angles s1 \<and>
     keys_pressed s2 = keys_pressed s1 \<and> last_command_time s2 = last_command_time s1 \<and>
     running s2 = running s1"
proof -
  have st: "steady (s\<lparr>arduino := q\<rparr>)" using assms by (simp add: steady_def)
  obtain s1 where s1: "main_loop frames s = Inr s1"
    using main_loop_steady [OF assms] by blast
  obtain s2 where s2: "main_loop frames (s\<lparr>arduino := q\<rparr>) = Inr s2"
    using main_loop_steady [OF st] by blast
  have a: "main_loop frames (forget_port s) = Inr (forget_port s1)"
    unfolding main_loop_forget_port s1 by simp
  have b: "main_loop frames (forget_port (s\<lparr>arduino := q\<rparr>)) = Inr (forget_port s2)"
    unfolding main_loop_forget_port s2 by simp
  have "forget_port (s\<lparr>arduino := q\<rparr>) = forget_port s" by simp
  with a b have eq: "forget_port s2 = forget_port s1" by simp
  have "motor_targets s2 = motor_targets s1"
    using arg_cong [OF eq, of motor_targets] by simp
  moreover have "motor_angles s2 = motor_angles s1"
    using arg_cong [OF eq, of motor_angles] by simp
  moreover have "keys_pressed s2 = keys_pressed s1"
    using arg_cong [OF eq, of keys_pressed] by simp
  moreover have "last_command_time s2 = last_command_time s1"
    using arg_cong [OF eq, of last_command_time] by simp
  moreover have "running s2 = running s1"
    using arg_cong [OF eq, of running] by simp
  ultimately show ?thesis using s1 s2 eq by blast
qed

theorem transport_fault_isolation_witness:
  "steady (initial_state (Some \<lparr>tx_log = [], faults = []\<rparr>)) \<and>
   (\<exists>s1 s2.
      main_loop [(0, [KEYDOWN K_q]), (16, []), (64, [KEYUP K_q])]
        (initial_state (Some \<lparr>tx_log = [], faults = []\<rparr>)) = Inr s1 \<and>
      main_loop [(0, [KEYDOWN K_q]), (16, []), (64, [KEYUP K_q])]
        (initial_state (Some \<lparr>tx_log = [], faults = [True, True]\<rparr>)) = Inr s2 \<and>
      motor_targets s2 = motor_targets s1 \<and> motor_angles s2 = motor_angles s1)"
proof -
  let ?s = "initial_state (Some \<lparr>tx_log = [], faults = []\<rparr>)"
  have st: "steady ?s" by (rule initial_steady)
  have "?s\<lparr>arduino := Some \<lparr>tx_log = [], faults = [True, True]\<rparr>\<rparr> =
      initial_state (Some \<lparr>tx_log = [], faults = [True, True]\<rparr>)"
    by (simp add: initial_state_def)
  with transport_fault_isolation [OF st,
      of "[(0, [KEYDOWN K_q]), (16, []), (64, [KEYUP K_q])]"
         "Some \<lparr>tx_log = [], faults = [True, True]\<rparr>"] st
  show ?thesis by (simp only:) blast
qed

end
